theory Spec2Isabelle
  imports Main "HOL-Library.Word" "HOL-Library.AList" "HOL-Library.Sublist"
begin

unbundle bit_operations_syntax

section \<open>PackStream: the Packer and Unpacker of src/v1/internal/packstream.js\<close>

subsection \<open>Values\<close>

text \<open>
  The host values the codec sees. A JavaScript string is represented by its UTF-8 byte
  sequence (the data model of the specification), an \<open>Integer\<close> by its two 32-bit halves,
  a number by the 64 bits of its IEEE-754 representation, and a plain object by the list
  of its own enumerable properties in the order \<open>Object.keys\<close> yields them (the keys
  of an object are pairwise distinct). \<open>Function\<close> stands for a function, a host value
  that matches no branch of \<open>Packer.packable\<close>. A symbol, for which building the message
  of the error throws, is not among the values.
\<close>

type_synonym byte = "8 word"
type_synonym jsstring = "byte list"

datatype val =
    Null
  | Undefined
  | Bool bool
  | Number "64 word"
  | String jsstring
  | Integer (low: "32 word") (high: "32 word")
  | Array "val list"
  | Structure (signature: byte) (fields: "val list")
  | Object "(jsstring \<times> val) list"
  | Function

subsection \<open>Marker constants\<close>

definition TINY_STRING :: nat where "TINY_STRING = 0x80"
definition TINY_LIST :: nat where "TINY_LIST = 0x90"
definition TINY_MAP :: nat where "TINY_MAP = 0xA0"
definition TINY_STRUCT :: nat where "TINY_STRUCT = 0xB0"
definition NULL :: nat where "NULL = 0xC0"
definition FLOAT_64 :: nat where "FLOAT_64 = 0xC1"
definition FALSE :: nat where "FALSE = 0xC2"
definition TRUE :: nat where "TRUE = 0xC3"
definition INT_8 :: nat where "INT_8 = 0xC8"
definition INT_16 :: nat where "INT_16 = 0xC9"
definition INT_32 :: nat where "INT_32 = 0xCA"
definition INT_64 :: nat where "INT_64 = 0xCB"
definition STRING_8 :: nat where "STRING_8 = 0xD0"
definition STRING_16 :: nat where "STRING_16 = 0xD1"
definition STRING_32 :: nat where "STRING_32 = 0xD2"
definition LIST_8 :: nat where "LIST_8 = 0xD4"
definition LIST_16 :: nat where "LIST_16 = 0xD5"
definition LIST_32 :: nat where "LIST_32 = 0xD6"
definition MAP_8 :: nat where "MAP_8 = 0xD8"
definition MAP_16 :: nat where "MAP_16 = 0xD9"
definition MAP_32 :: nat where "MAP_32 = 0xDA"
definition STRUCT_8 :: nat where "STRUCT_8 = 0xDC"
definition STRUCT_16 :: nat where "STRUCT_16 = 0xDD"

lemmas marker_defs =
  TINY_STRING_def TINY_LIST_def TINY_MAP_def TINY_STRUCT_def NULL_def FLOAT_64_def
  FALSE_def TRUE_def INT_8_def INT_16_def INT_32_def INT_64_def STRING_8_def
  STRING_16_def STRING_32_def LIST_8_def LIST_16_def LIST_32_def MAP_8_def MAP_16_def
  MAP_32_def STRUCT_8_def STRUCT_16_def

subsection \<open>Big-endian byte sequences\<close>

text \<open>
  \<open>be_bytes k n\<close> is the \<open>k\<close>-byte big-endian representation of \<open>n\<close> (its low \<open>8k\<close> bits),
  \<open>be_nat\<close> the number a big-endian byte sequence denotes, \<open>to_signed k u\<close> the reading of
  the unsigned \<open>k\<close>-byte quantity \<open>u\<close> as two's complement.
\<close>

fun be_bytes :: "nat \<Rightarrow> nat \<Rightarrow> byte list" where
  "be_bytes 0 n = []"
| "be_bytes (Suc k) n = of_nat (n div 256 ^ k) # be_bytes k n"

definition be_nat :: "byte list \<Rightarrow> nat" where
  "be_nat bs = foldl (\<lambda>a b. a * 256 + unat b) 0 bs"

definition twos :: "nat \<Rightarrow> int \<Rightarrow> nat" where
  "twos k v = nat (v mod 2 ^ (8 * k))"

definition to_signed :: "nat \<Rightarrow> nat \<Rightarrow> int" where
  "to_signed k u = (if u < 2 ^ (8 * k - 1) then int u else int u - 2 ^ (8 * k))"

subsection \<open>Errors\<close>

text \<open>
  Modelled from the spec: the error factory \<open>newError(message)\<close> of \<open>./../error\<close> is not
  among the sources; section 6 of the specification has it make an error object of the
  message. An error of the pack path is represented by its kind and the offending value
  or size that the message names, the error of the unpack path by its message.
\<close>

datatype neo4j_error =
    CannotPackThisValue val
  | StringsOfSizeNotSupported nat
  | ListsOfSizeNotSupported nat
  | MapsOfSizeNotSupported nat
  | StructuresOfSizeNotSupported nat
  | Neo4jError string

text \<open>
  What is thrown: by the host when \<open>onError\<close> is called while it is \<open>undefined\<close>, by the
  byte source when a read passes the end of the input, and by the Unpacker itself.
\<close>

datatype js_exception = TypeError | RangeError | Neo4j neo4j_error

subsection \<open>The byte sink\<close>

text \<open>
  The state a Packer works on: the bytes written to the channel so far and the errors
  handed to the caller's \<open>onError\<close> so far. An operation either completes or throws,
  and the bytes written before a throw stay written.
\<close>

record packer_state =
  written :: "byte list"
  reported :: "neo4j_error list"

datatype outcome = Done packer_state | Thrown js_exception packer_state

type_synonym action = "packer_state \<Rightarrow> outcome"

text \<open>Statements in sequence: a throw ends the sequence.\<close>

fun run :: "action list \<Rightarrow> action" where
  "run [] s = Done s"
| "run (a # as) s = (case a s of Done s' \<Rightarrow> run as s' | Thrown e s' \<Rightarrow> Thrown e s')"

text \<open>
  Modelled from the spec: the channel of \<open>./buf\<close> is not among the sources. Section 6 of
  the specification gives its operations: each writes its argument big-endian at the
  cursor and advances the cursor.
\<close>

definition emit :: "byte list \<Rightarrow> action" where
  "emit bs s = Done (s\<lparr>written := written s @ bs\<rparr>)"

definition writeUInt8 :: "nat \<Rightarrow> action" where
  "writeUInt8 v = emit (be_bytes 1 v)"

definition writeInt8 :: "int \<Rightarrow> action" where
  "writeInt8 v = emit (be_bytes 1 (twos 1 v))"

definition writeInt16 :: "int \<Rightarrow> action" where
  "writeInt16 v = emit (be_bytes 2 (twos 2 v))"

definition writeInt32 :: "int \<Rightarrow> action" where
  "writeInt32 v = emit (be_bytes 4 (twos 4 v))"

definition writeFloat64 :: "64 word \<Rightarrow> action" where
  "writeFloat64 x = emit (be_bytes 8 (unat x))"

definition writeBytes :: "byte list \<Rightarrow> action" where
  "writeBytes bytes = emit bytes"

text \<open>
  The caller's \<open>onError\<close>: either a function, which records the error it is given, or
  \<open>undefined\<close>, and then the call \<open>onError(...)\<close> throws a TypeError.
\<close>

datatype on_error = Absent | Supplied

fun call_onError :: "on_error \<Rightarrow> neo4j_error \<Rightarrow> action" where
  "call_onError Supplied e s = Done (s\<lparr>reported := reported s @ [e]\<rparr>)"
| "call_onError Absent e s = Thrown TypeError s"

subsection \<open>Integer\<close>

text \<open>
  Modelled from the spec: \<open>../integer\<close> is not among the sources. Sections 3 and 4.5 of the
  specification: an Integer carries \<open>(high: int32, low: int32)\<close>, represents
  \<open>high * 2^32 + (low & 0xFFFFFFFF)\<close>, its comparisons agree with that value, and
  \<open>int(v)\<close> constructs it from a signed 32-bit native value.
\<close>

definition toInt :: "val \<Rightarrow> int" where
  "toInt x = sint (high x) * 2 ^ 32 + uint (low x)"

definition greaterThanOrEqual :: "val \<Rightarrow> int \<Rightarrow> bool" where
  "greaterThanOrEqual x n = (toInt x \<ge> n)"

definition lessThan_Integer :: "val \<Rightarrow> int \<Rightarrow> bool" where
  "lessThan_Integer x n = (toInt x < n)"

definition int_Integer :: "int \<Rightarrow> val" where
  "int_Integer v = Integer (word_of_int v) (if v < 0 then - 1 else 0)"

definition new_Integer :: "int \<Rightarrow> int \<Rightarrow> val" where
  "new_Integer lo hi = Integer (word_of_int lo) (word_of_int hi)"

subsection \<open>Packer\<close>

text \<open>
  Modelled from the spec: \<open>utf8.encode\<close> of \<open>./utf8\<close> is not among the sources; section 6
  of the specification has it yield the UTF-8 bytes of the string, which here represent
  the string.
\<close>

definition utf8_encode :: "jsstring \<Rightarrow> byte list" where
  "utf8_encode x = x"

text \<open>
  In the length prefixes the source writes \<open>size/256>>0\<close>: the quotient is below \<open>2^31\<close>
  in every branch (the branch's guard bounds the size by \<open>2^32\<close>), where \<open>>>0\<close> is the
  integer part, so it is \<open>div\<close>.
\<close>

definition packInteger :: "val \<Rightarrow> action" where
  "packInteger x =
    (let high = sint (high x); low = sint (low x) in
     if greaterThanOrEqual x (- 0x10) \<and> lessThan_Integer x 0x80 then
       run [writeInt8 low]
     else if greaterThanOrEqual x (- 0x80) \<and> lessThan_Integer x (- 0x10) then
       run [writeUInt8 INT_8, writeInt8 low]
     else if greaterThanOrEqual x (- 0x8000) \<and> lessThan_Integer x 0x8000 then
       run [writeUInt8 INT_16, writeInt16 low]
     else if greaterThanOrEqual x (- 0x80000000) \<and> lessThan_Integer x 0x80000000 then
       run [writeUInt8 INT_32, writeInt32 low]
     else
       run [writeUInt8 INT_64, writeInt32 high, writeInt32 low])"

definition packFloat :: "64 word \<Rightarrow> action" where
  "packFloat x = run [writeUInt8 FLOAT_64, writeFloat64 x]"

definition packString :: "jsstring \<Rightarrow> on_error \<Rightarrow> action" where
  "packString x onError =
    (let bytes = utf8_encode x; sz = length bytes in
     if sz < 0x10 then
       run [writeUInt8 (TINY_STRING OR sz), writeBytes bytes]
     else if sz < 0x100 then
       run [writeUInt8 STRING_8, writeUInt8 sz, writeBytes bytes]
     else if sz < 0x10000 then
       run [writeUInt8 STRING_16, writeUInt8 (sz div 256), writeUInt8 (sz mod 256),
            writeBytes bytes]
     else if sz < 0x100000000 then
       run [writeUInt8 STRING_32, writeUInt8 ((sz div 16777216) mod 256),
            writeUInt8 ((sz div 65536) mod 256), writeUInt8 ((sz div 256) mod 256),
            writeUInt8 (sz mod 256), writeBytes bytes]
     else
       call_onError onError (StringsOfSizeNotSupported sz))"

definition packListHeader :: "nat \<Rightarrow> on_error \<Rightarrow> action" where
  "packListHeader sz onError =
    (if sz < 0x10 then
       run [writeUInt8 (TINY_LIST OR sz)]
     else if sz < 0x100 then
       run [writeUInt8 LIST_8, writeUInt8 sz]
     else if sz < 0x10000 then
       run [writeUInt8 LIST_16, writeUInt8 ((sz div 256) mod 256), writeUInt8 (sz mod 256)]
     else if sz < 0x100000000 then
       run [writeUInt8 LIST_32, writeUInt8 ((sz div 16777216) mod 256),
            writeUInt8 ((sz div 65536) mod 256), writeUInt8 ((sz div 256) mod 256),
            writeUInt8 (sz mod 256)]
     else
       call_onError onError (ListsOfSizeNotSupported sz))"

definition packMapHeader :: "nat \<Rightarrow> on_error \<Rightarrow> action" where
  "packMapHeader sz onError =
    (if sz < 0x10 then
       run [writeUInt8 (TINY_MAP OR sz)]
     else if sz < 0x100 then
       run [writeUInt8 MAP_8, writeUInt8 sz]
     else if sz < 0x10000 then
       run [writeUInt8 MAP_16, writeUInt8 (sz div 256), writeUInt8 (sz mod 256)]
     else if sz < 0x100000000 then
       run [writeUInt8 MAP_32, writeUInt8 ((sz div 16777216) mod 256),
            writeUInt8 ((sz div 65536) mod 256), writeUInt8 ((sz div 256) mod 256),
            writeUInt8 (sz mod 256)]
     else
       call_onError onError (MapsOfSizeNotSupported sz))"

definition packStructHeader :: "nat \<Rightarrow> byte \<Rightarrow> on_error \<Rightarrow> action" where
  "packStructHeader sz sig onError =
    (if sz < 0x10 then
       run [writeUInt8 (TINY_STRUCT OR sz), writeUInt8 (unat sig)]
     else if sz < 0x100 then
       run [writeUInt8 STRUCT_8, writeUInt8 sz, writeUInt8 (unat sig)]
     else if sz < 0x10000 then
       run [writeUInt8 STRUCT_16, writeUInt8 (sz div 256), writeUInt8 (sz mod 256)]
     else
       call_onError onError (StructuresOfSizeNotSupported sz))"

text \<open>\<open>packStruct\<close> receives the fields as the thunks \<open>packable\<close> made of them.\<close>

definition packStruct :: "byte \<Rightarrow> action list \<Rightarrow> on_error \<Rightarrow> action" where
  "packStruct sig packableFields onError =
    run (packStructHeader (length packableFields) sig onError # packableFields)"

text \<open>
  \<open>packable(x, onError)\<close> returns a thunk; what it does before returning (reporting a value
  it cannot pack, and, for a Structure, making the thunks of the fields) happens at the
  call, what the thunk does happens when the thunk is run. \<open>collect\<close> is the loop that
  fills \<open>packableFields\<close>.
\<close>

fun collect :: "('a \<Rightarrow> 's \<Rightarrow> 's \<times> 'b) \<Rightarrow> 'a list \<Rightarrow> 's \<Rightarrow> 's \<times> 'b list" where
  "collect f [] s = (s, [])"
| "collect f (x # xs) s =
    (case f x s of (s1, t) \<Rightarrow> (case collect f xs s1 of (s2, ts) \<Rightarrow> (s2, t # ts)))"

lemma collect_cong [fundef_cong]:
  "xs = ys \<Longrightarrow> s = t \<Longrightarrow> (\<And>x u. x \<in> set ys \<Longrightarrow> f x u = g x u) \<Longrightarrow> collect f xs s = collect g ys t"
  by (induction ys arbitrary: xs s t) auto

fun packable :: "on_error \<Rightarrow> val \<Rightarrow> packer_state \<Rightarrow> packer_state \<times> action" where
  "packable onError Null s = (s, writeUInt8 NULL)"
| "packable onError (Bool b) s = (s, if b then writeUInt8 TRUE else writeUInt8 FALSE)"
| "packable onError (Number x) s = (s, packFloat x)"
| "packable onError (String x) s = (s, packString x onError)"
| "packable onError (Integer lo hi) s = (s, packInteger (Integer lo hi))"
| "packable onError (Array x) s =
    (s, run (packListHeader (length x) onError #
             map (\<lambda>xi t. if xi = Undefined
                         then (case packable onError Null t of (t', thunk) \<Rightarrow> thunk t')
                         else (case packable onError xi t of (t', thunk) \<Rightarrow> thunk t')) x))"
| "packable onError (Structure sig flds) s =
    (case collect (\<lambda>f t. packable onError f t) flds s of
       (s', packableFields) \<Rightarrow> (s', packStruct sig packableFields Absent))"
| "packable onError (Object x) s =
    (s, run (packMapHeader (length (filter (\<lambda>(key, v). v \<noteq> Undefined) x)) onError #
             map (\<lambda>(key, v) t. if v \<noteq> Undefined
                         then run [packString key Absent,
                                   (\<lambda>u. case packable onError v u of (u', thunk) \<Rightarrow> thunk u')] t
                         else Done t) x))"
| "packable onError Undefined s =
    (case onError of Supplied \<Rightarrow> (s\<lparr>reported := reported s @ [CannotPackThisValue Undefined]\<rparr>, Done)
                   | Absent \<Rightarrow> (s, Done))"
| "packable onError Function s =
    (case onError of Supplied \<Rightarrow> (s\<lparr>reported := reported s @ [CannotPackThisValue Function]\<rparr>, Done)
                   | Absent \<Rightarrow> (s, Done))"

text \<open>\<open>packable(x, onError)()\<close>: make the thunk and run it.\<close>

definition pack :: "on_error \<Rightarrow> val \<Rightarrow> action" where
  "pack onError x s = (case packable onError x s of (s', thunk) \<Rightarrow> thunk s')"

subsection \<open>The byte source\<close>

text \<open>
  A call of the Unpacker either returns a value and leaves the source at the bytes that
  follow, or raises. The nesting of the input is not bounded, so \<open>unpack\<close> takes the
  nesting depth it may descend; \<open>OutOfFuel\<close> says that the depth did not suffice.
  \<open>Unmodelled\<close> says that the code goes on with an object that the type \<open>val\<close> cannot
  represent (see \<open>assign\<close> below); nothing is stated about such a run.
\<close>

type_synonym buffer = "byte list"

datatype 'a result = OutOfFuel | Unmodelled | Raise js_exception | Return 'a

fun bindR :: "'a result \<Rightarrow> ('a \<Rightarrow> 'b result) \<Rightarrow> 'b result" where
  "bindR OutOfFuel f = OutOfFuel"
| "bindR Unmodelled f = Unmodelled"
| "bindR (Raise e) f = Raise e"
| "bindR (Return x) f = f x"

text \<open>
  Modelled from the spec: the buffer of \<open>./buf\<close> is not among the sources. Section 6 of
  the specification gives its operations: each reads big-endian at the cursor and
  advances the cursor; a truncated input is the source's failure (section 7).
\<close>

definition readBytes :: "nat \<Rightarrow> buffer \<Rightarrow> (byte list \<times> buffer) result" where
  "readBytes k buffer =
    (if length buffer < k then Raise RangeError else Return (take k buffer, drop k buffer))"

definition readUInt8 :: "buffer \<Rightarrow> (nat \<times> buffer) result" where
  "readUInt8 buffer = bindR (readBytes 1 buffer) (\<lambda>(bs, rest). Return (be_nat bs, rest))"

definition readUInt16 :: "buffer \<Rightarrow> (nat \<times> buffer) result" where
  "readUInt16 buffer = bindR (readBytes 2 buffer) (\<lambda>(bs, rest). Return (be_nat bs, rest))"

definition readUInt32 :: "buffer \<Rightarrow> (nat \<times> buffer) result" where
  "readUInt32 buffer = bindR (readBytes 4 buffer) (\<lambda>(bs, rest). Return (be_nat bs, rest))"

definition readInt8 :: "buffer \<Rightarrow> (int \<times> buffer) result" where
  "readInt8 buffer =
    bindR (readBytes 1 buffer) (\<lambda>(bs, rest). Return (to_signed 1 (be_nat bs), rest))"

definition readInt16 :: "buffer \<Rightarrow> (int \<times> buffer) result" where
  "readInt16 buffer =
    bindR (readBytes 2 buffer) (\<lambda>(bs, rest). Return (to_signed 2 (be_nat bs), rest))"

definition readInt32 :: "buffer \<Rightarrow> (int \<times> buffer) result" where
  "readInt32 buffer =
    bindR (readBytes 4 buffer) (\<lambda>(bs, rest). Return (to_signed 4 (be_nat bs), rest))"

definition readFloat64 :: "buffer \<Rightarrow> (64 word \<times> buffer) result" where
  "readFloat64 buffer =
    bindR (readBytes 8 buffer) (\<lambda>(bs, rest). Return (of_nat (be_nat bs), rest))"

text \<open>
  Modelled from the spec: \<open>utf8.decode(source, byteCount)\<close> of \<open>./utf8\<close> consumes exactly
  \<open>byteCount\<close> bytes; the string is represented by these bytes.
\<close>

definition utf8_decode :: "buffer \<Rightarrow> nat \<Rightarrow> (val \<times> buffer) result" where
  "utf8_decode buffer n = bindR (readBytes n buffer) (\<lambda>(bs, rest). Return (String bs, rest))"

subsection \<open>Unpacker\<close>

text \<open>
  \<open>marker.toString(16)\<close> of the host: lower-case hexadecimal digits, no prefix, no
  padding.
\<close>

fun toString16 :: "nat \<Rightarrow> string" where
  "toString16 n =
    (if n < 16 then [''0123456789abcdef'' ! n]
     else toString16 (n div 16) @ [''0123456789abcdef'' ! (n mod 16)])"

text \<open>
  \<open>value[key] = v\<close> on an object created by \<open>{}\<close>. The key is converted to a string when
  the assignment is performed, after the value has been unpacked: a string is its own
  property key, and for any other value the host's string conversion \<open>toStr\<close> (a
  parameter) gives it, or throws a TypeError (\<open>None\<close>), as for an object with an own
  \<open>toString\<close> that is not callable. The assignment creates the own property or
  overwrites it, keeping its place in the list (that the host enumerates integer-like
  keys first is not modelled). For the key \<open>__proto__\<close> the
  assignment reaches the setter inherited from \<open>Object.prototype\<close> instead and creates
  no own property: the setter ignores a value that is neither an object nor null, and
  makes any other value the prototype of the object. An object with a replaced
  prototype is not a value of type \<open>val\<close>: \<open>assign\<close> yields \<open>None\<close> for it.
\<close>

definition propertyKey :: "(val \<Rightarrow> jsstring option) \<Rightarrow> val \<Rightarrow> jsstring option" where
  "propertyKey toStr key = (case key of String k \<Rightarrow> Some k | _ \<Rightarrow> toStr key)"

definition proto_key :: jsstring where
  "proto_key = [0x5F, 0x5F, 0x70, 0x72, 0x6F, 0x74, 0x6F, 0x5F, 0x5F]"

fun is_primitive :: "val \<Rightarrow> bool" where
  "is_primitive Undefined = True"
| "is_primitive (Bool b) = True"
| "is_primitive (Number x) = True"
| "is_primitive (String x) = True"
| "is_primitive v = False"

definition assign ::
  "(jsstring \<times> val) list \<Rightarrow> jsstring \<Rightarrow> val \<Rightarrow> (jsstring \<times> val) list option" where
  "assign obj key v =
    (if key \<noteq> proto_key then Some (AList.update key v obj)
     else if is_primitive v then Some obj
     else None)"

text \<open>
  A struct mapper is called as \<open>mapper(unpacker, buffer)\<close>: it receives the Unpacker's
  \<open>unpack\<close> to read the fields with, and the source. \<open>structMappers\<close> is the registry,
  keyed by the signature byte.
\<close>

type_synonym reader = "buffer \<Rightarrow> (val \<times> buffer) result"
type_synonym mapper = "reader \<Rightarrow> reader"

text \<open>
  The methods of the Unpacker call \<open>this.unpack\<close>; here each takes it as its first
  argument. \<open>unpackValues\<close> is the loop \<open>for (i < size) value.push(this.unpack(buffer))\<close>
  that \<open>unpackList\<close> and \<open>unpackStruct\<close> both contain, \<open>unpackEntries\<close> the loop of
  \<open>unpackMap\<close> with the object under construction.
\<close>

fun unpackValues :: "reader \<Rightarrow> nat \<Rightarrow> buffer \<Rightarrow> (val list \<times> buffer) result" where
  "unpackValues this_unpack 0 buffer = Return ([], buffer)"
| "unpackValues this_unpack (Suc n) buffer =
    bindR (this_unpack buffer) (\<lambda>(v, buffer).
      bindR (unpackValues this_unpack n buffer) (\<lambda>(vs, buffer).
        Return (v # vs, buffer)))"

definition unpackList :: "reader \<Rightarrow> nat \<Rightarrow> reader" where
  "unpackList this_unpack sz buffer =
    bindR (unpackValues this_unpack sz buffer) (\<lambda>(vs, buffer). Return (Array vs, buffer))"

fun unpackEntries ::
  "(val \<Rightarrow> jsstring option) \<Rightarrow> reader \<Rightarrow> nat \<Rightarrow> buffer \<Rightarrow> (jsstring \<times> val) list \<Rightarrow> (val \<times> buffer) result" where
  "unpackEntries toStr this_unpack 0 buffer obj = Return (Object obj, buffer)"
| "unpackEntries toStr this_unpack (Suc n) buffer obj =
    bindR (this_unpack buffer) (\<lambda>(key, buffer).
      bindR (this_unpack buffer) (\<lambda>(v, buffer).
        case propertyKey toStr key of
          None \<Rightarrow> Raise TypeError
        | Some k \<Rightarrow>
            (case assign obj k v of
               Some obj' \<Rightarrow> unpackEntries toStr this_unpack n buffer obj'
             | None \<Rightarrow> Unmodelled)))"

definition unpackMap :: "(val \<Rightarrow> jsstring option) \<Rightarrow> reader \<Rightarrow> nat \<Rightarrow> reader" where
  "unpackMap toStr this_unpack sz buffer = unpackEntries toStr this_unpack sz buffer []"

definition unpackStruct :: "(nat \<Rightarrow> mapper option) \<Rightarrow> reader \<Rightarrow> nat \<Rightarrow> reader" where
  "unpackStruct structMappers this_unpack sz buffer =
    bindR (readUInt8 buffer) (\<lambda>(sig, buffer).
      case structMappers sig of
        Some mapper \<Rightarrow> mapper this_unpack buffer
      | None \<Rightarrow>
          bindR (unpackValues this_unpack sz buffer) (\<lambda>(vs, buffer).
            Return (Structure (of_nat sig) vs, buffer)))"

text \<open>The body of \<open>unpack\<close>.\<close>

definition unpack_body :: "(val \<Rightarrow> jsstring option) \<Rightarrow> (nat \<Rightarrow> mapper option) \<Rightarrow> reader \<Rightarrow> reader" where
  "unpack_body toStr structMappers this_unpack buffer =
    bindR (readUInt8 buffer) (\<lambda>(marker, buffer).
      if marker = NULL then Return (Null, buffer)
      else if marker = TRUE then Return (Bool True, buffer)
      else if marker = FALSE then Return (Bool False, buffer)
      else if marker = FLOAT_64 then
        bindR (readFloat64 buffer) (\<lambda>(x, buffer). Return (Number x, buffer))
      else if marker \<ge> 0 \<and> marker < 128 then Return (int_Integer (int marker), buffer)
      else if marker \<ge> 240 \<and> marker < 256 then Return (int_Integer (int marker - 256), buffer)
      else if marker = INT_8 then
        bindR (readInt8 buffer) (\<lambda>(b, buffer). Return (int_Integer b, buffer))
      else if marker = INT_16 then
        bindR (readInt16 buffer) (\<lambda>(b, buffer). Return (int_Integer b, buffer))
      else if marker = INT_32 then
        bindR (readInt32 buffer) (\<lambda>(b, buffer). Return (int_Integer b, buffer))
      else if marker = INT_64 then
        bindR (readInt32 buffer) (\<lambda>(high, buffer).
          bindR (readInt32 buffer) (\<lambda>(low, buffer). Return (new_Integer low high, buffer)))
      else if marker = STRING_8 then
        bindR (readUInt8 buffer) (\<lambda>(n, buffer). utf8_decode buffer n)
      else if marker = STRING_16 then
        bindR (readUInt16 buffer) (\<lambda>(n, buffer). utf8_decode buffer n)
      else if marker = STRING_32 then
        bindR (readUInt32 buffer) (\<lambda>(n, buffer). utf8_decode buffer n)
      else if marker = LIST_8 then
        bindR (readUInt8 buffer) (\<lambda>(n, buffer). unpackList this_unpack n buffer)
      else if marker = LIST_16 then
        bindR (readUInt16 buffer) (\<lambda>(n, buffer). unpackList this_unpack n buffer)
      else if marker = LIST_32 then
        bindR (readUInt32 buffer) (\<lambda>(n, buffer). unpackList this_unpack n buffer)
      else if marker = MAP_8 then
        bindR (readUInt8 buffer) (\<lambda>(n, buffer). unpackMap toStr this_unpack n buffer)
      else if marker = MAP_16 then
        bindR (readUInt16 buffer) (\<lambda>(n, buffer). unpackMap toStr this_unpack n buffer)
      else if marker = MAP_32 then
        bindR (readUInt32 buffer) (\<lambda>(n, buffer). unpackMap toStr this_unpack n buffer)
      else if marker = STRUCT_8 then
        bindR (readUInt8 buffer) (\<lambda>(n, buffer). unpackStruct structMappers this_unpack n buffer)
      else if marker = STRUCT_16 then
        bindR (readUInt16 buffer) (\<lambda>(n, buffer). unpackStruct structMappers this_unpack n buffer)
      else
        (let markerHigh = marker AND 0xF0; markerLow = marker AND 0x0F in
         if markerHigh = 0x80 then utf8_decode buffer markerLow
         else if markerHigh = 0x90 then unpackList this_unpack markerLow buffer
         else if markerHigh = 0xA0 then unpackMap toStr this_unpack markerLow buffer
         else if markerHigh = 0xB0 then unpackStruct structMappers this_unpack markerLow buffer
         else Raise (Neo4j (Neo4jError
                (''Unknown packed value with marker '' @ toString16 marker)))))"

text \<open>
  \<open>unpack\<close> itself: every nested call descends one level, and the first argument bounds
  the levels.
\<close>

primrec unpack :: "(val \<Rightarrow> jsstring option) \<Rightarrow> (nat \<Rightarrow> mapper option) \<Rightarrow> nat \<Rightarrow> reader" where
  "unpack toStr structMappers 0 = (\<lambda>buffer. OutOfFuel)"
| "unpack toStr structMappers (Suc depth) =
    unpack_body toStr structMappers (unpack toStr structMappers depth)"

subsection \<open>The integer tiers as the specification tabulates them\<close>

text \<open>
  Section 4.2 of the specification, as a function of the numeric value alone: the tier
  the value falls in, and the value in two's complement, big-endian, at the tier's width.
\<close>

definition integer_tier :: "int \<Rightarrow> byte list" where
  "integer_tier v =
    (if - 16 \<le> v \<and> v < 128 then be_bytes 1 (twos 1 v)
     else if - 128 \<le> v \<and> v < - 16 then 0xC8 # be_bytes 1 (twos 1 v)
     else if - 32768 \<le> v \<and> v < 32768 then 0xC9 # be_bytes 2 (twos 2 v)
     else if - 2147483648 \<le> v \<and> v < 2147483648 then 0xCA # be_bytes 4 (twos 4 v)
     else 0xCB # be_bytes 8 (twos 8 v))"

subsection \<open>The size headers as the marker table gives them\<close>

text \<open>
  Section 4.1 of the specification: a size below 16 lies in the low nibble of the tiny
  marker; otherwise the marker of the narrowest prefix that holds the size is followed
  by the size, big-endian, in 1, 2 or 4 bytes.
\<close>

definition size_header :: "nat \<Rightarrow> nat \<Rightarrow> nat \<Rightarrow> nat \<Rightarrow> nat \<Rightarrow> byte list" where
  "size_header tiny m8 m16 m32 n =
    (if n < 16 then [of_nat (tiny + n)]
     else if n < 256 then of_nat m8 # be_bytes 1 n
     else if n < 65536 then of_nat m16 # be_bytes 2 n
     else of_nat m32 # be_bytes 4 n)"

subsection \<open>The entries of an encoded map\<close>

text \<open>
  The entries that follow a map header, in encoded order: \<open>size\<close> times a key and a
  value, each read with \<open>unpack\<close>.
\<close>

fun unpackPairs :: "reader \<Rightarrow> nat \<Rightarrow> buffer \<Rightarrow> ((val \<times> val) list \<times> buffer) result" where
  "unpackPairs this_unpack 0 buffer = Return ([], buffer)"
| "unpackPairs this_unpack (Suc n) buffer =
    bindR (this_unpack buffer) (\<lambda>(key, buffer).
      bindR (this_unpack buffer) (\<lambda>(v, buffer).
        bindR (unpackPairs this_unpack n buffer) (\<lambda>(es, buffer).
          Return ((key, v) # es, buffer))))"

subsection \<open>The values on which Packer and Unpacker are inverse\<close>

text \<open>
  \<open>in_scope structMappers v\<close>: \<open>v\<close> is a value of the grammar within the size limits
  (a string, a map key, a list and the surviving entries of a map below \<open>2^32\<close>; no
  undefined or unencodable value except as a list element or as the value of a map
  entry), every Structure in it has fewer than 256 fields and a signature for which no
  mapper is registered, and no surviving map entry has the key \<open>__proto__\<close>. The keys of
  a map are distinct, as the keys of an object are.
\<close>

fun in_scope :: "(nat \<Rightarrow> mapper option) \<Rightarrow> val \<Rightarrow> bool" where
  "in_scope ms Null = True"
| "in_scope ms (Bool b) = True"
| "in_scope ms (Number x) = True"
| "in_scope ms (Integer lo hi) = True"
| "in_scope ms (String x) = (length x < 4294967296)"
| "in_scope ms (Array xs) =
    (length xs < 4294967296 \<and> list_all (\<lambda>x. x = Undefined \<or> in_scope ms x) xs)"
| "in_scope ms (Structure sig fs) =
    (length fs < 256 \<and> ms (unat sig) = None \<and> list_all (\<lambda>f. in_scope ms f) fs)"
| "in_scope ms (Object kvs) =
    (distinct (map fst kvs) \<and>
     length (filter (\<lambda>(key, v). v \<noteq> Undefined) kvs) < 4294967296 \<and>
     list_all (\<lambda>(key, v). v = Undefined \<or>
        (length key < 4294967296 \<and> key \<noteq> proto_key \<and> in_scope ms v)) kvs)"
| "in_scope ms Undefined = False"
| "in_scope ms Function = False"

text \<open>
  The undefined-filtering rule: what a value is after the undefined elements of its
  lists have become Null and the undefined-valued entries of its maps have been removed.
\<close>

fun without_undefined :: "val \<Rightarrow> val" where
  "without_undefined (Array xs) =
    Array (map (\<lambda>x. if x = Undefined then Null else without_undefined x) xs)"
| "without_undefined (Structure sig fs) = Structure sig (map without_undefined fs)"
| "without_undefined (Object kvs) =
    Object (map (\<lambda>(key, v). (key, without_undefined v))
                (filter (\<lambda>(key, v). v \<noteq> Undefined) kvs))"
| "without_undefined v = v"

text \<open>
  The encoding of section 4.2 of the specification as a function from values to bytes
  (an undefined or unencodable value contributes nothing, an undefined list element the
  byte of Null).
\<close>

fun encode :: "val \<Rightarrow> byte list" where
  "encode Null = [0xC0]"
| "encode (Bool b) = [if b then 0xC3 else 0xC2]"
| "encode (Number x) = 0xC1 # be_bytes 8 (unat x)"
| "encode (Integer lo hi) = integer_tier (toInt (Integer lo hi))"
| "encode (String x) = size_header TINY_STRING STRING_8 STRING_16 STRING_32 (length x) @ x"
| "encode (Array xs) =
    size_header TINY_LIST LIST_8 LIST_16 LIST_32 (length xs) @
    concat (map (\<lambda>x. if x = Undefined then [0xC0] else encode x) xs)"
| "encode (Structure sig fs) =
    (if length fs < 16 then [of_nat (TINY_STRUCT + length fs), sig]
     else if length fs < 256 then [of_nat STRUCT_8, of_nat (length fs), sig]
     else of_nat STRUCT_16 # be_bytes 2 (length fs) @ [sig]) @
    concat (map encode fs)"
| "encode (Object kvs) =
    size_header TINY_MAP MAP_8 MAP_16 MAP_32 (length (filter (\<lambda>(key, v). v \<noteq> Undefined) kvs)) @
    concat (map (\<lambda>(key, v).
                  size_header TINY_STRING STRING_8 STRING_16 STRING_32 (length key) @ key @ encode v)
                (filter (\<lambda>(key, v). v \<noteq> Undefined) kvs))"
| "encode Undefined = []"
| "encode Function = []"

section \<open>Properties\<close>

subsection \<open>Sequences of writes\<close>

lemma run_append:
  "run (as @ bs) s = (case run as s of Done s' \<Rightarrow> run bs s' | Thrown e s' \<Rightarrow> Thrown e s')"
  by (induction as arbitrary: s) (auto split: outcome.splits)

lemma writeUInt8_emit: "writeUInt8 v = emit [of_nat v]"
  by (simp add: writeUInt8_def)

subsection \<open>Big-endian bytes\<close>

lemma length_be_bytes [simp]: "length (be_bytes k n) = k"
  by (induction k) auto

lemma mod_div_256: "(x mod (256 ^ k * 256)) div 256 ^ k = (x div 256 ^ k) mod (256::nat)"
  by (simp add: mod_mult2_eq)

lemma be_bytes_cong: "m mod 256 ^ k = n mod 256 ^ k \<Longrightarrow> be_bytes k m = be_bytes k n"
proof (induction k)
  case 0
  show ?case by simp
next
  case (Suc k)
  from Suc.prems have e: "m mod (256 ^ k * 256) = n mod (256 ^ k * 256)"
    by (simp only: power_Suc2)
  have "(m mod (256 ^ k * 256)) mod 256 ^ k = (n mod (256 ^ k * 256)) mod 256 ^ k"
    by (simp only: e)
  then have t: "m mod 256 ^ k = n mod 256 ^ k"
    by (simp only: mod_mult_self2_is_0 mod_mod_cancel dvd_triv_left)
  have "(m mod (256 ^ k * 256)) div 256 ^ k = (n mod (256 ^ k * 256)) div 256 ^ k"
    by (simp only: e)
  then have "(m div 256 ^ k) mod 256 = (n div 256 ^ k) mod 256"
    by (simp only: mod_div_256)
  then have h: "(of_nat (m div 256 ^ k) :: byte) = of_nat (n div 256 ^ k)"
    by (simp add: word_of_nat_eq_iff take_bit_eq_mod)
  show ?case using h Suc.IH [OF t] by simp
qed

lemma be_bytes_mod: "be_bytes k (n mod 256 ^ k) = be_bytes k n"
  by (rule be_bytes_cong) simp

lemma foldl_be_bytes:
  "foldl (\<lambda>a b. a * 256 + unat b) a (be_bytes k n) = a * 256 ^ k + n mod 256 ^ k"
proof (induction k arbitrary: a)
  case 0
  show ?case by simp
next
  case (Suc k)
  have u: "unat (of_nat (n div 256 ^ k) :: byte) = (n div 256 ^ k) mod 256"
    by (simp add: unat_of_nat)
  have m: "n mod (256 ^ k * 256) = 256 ^ k * (n div 256 ^ k mod 256) + n mod 256 ^ k"
    by (rule mod_mult2_eq)
  have "foldl (\<lambda>a b. a * 256 + unat b) a (be_bytes (Suc k) n)
        = (a * 256 + (n div 256 ^ k) mod 256) * 256 ^ k + n mod 256 ^ k"
    by (simp add: Suc.IH u)
  also have "\<dots> = a * (256 ^ k * 256) + (256 ^ k * (n div 256 ^ k mod 256) + n mod 256 ^ k)"
    by (simp add: algebra_simps)
  also have "\<dots> = a * 256 ^ Suc k + n mod 256 ^ Suc k"
    by (simp only: m [symmetric] power_Suc2)
  finally show ?case .
qed

lemma be_nat_be_bytes: "be_nat (be_bytes k n) = n mod 256 ^ k"
  by (simp add: be_nat_def foldl_be_bytes)

lemma be_bytes_append: "be_bytes (j + k) n = be_bytes j (n div 256 ^ k) @ be_bytes k n"
proof (induction j)
  case 0
  show ?case by simp
next
  case (Suc j)
  have "n div 256 ^ (j + k) = n div 256 ^ k div 256 ^ j"
    by (simp only: add.commute [of j k] power_add div_mult2_eq)
  then show ?case using Suc.IH by simp
qed

lemma be_bytes_2: "be_bytes 2 n = [of_nat (n div 256), of_nat n]"
proof -
  have "be_bytes (Suc (Suc 0)) n = [of_nat (n div 256), of_nat n]" by simp
  then show ?thesis by (simp only: numeral_2_eq_2)
qed

lemma be_bytes_4:
  "be_bytes 4 n = [of_nat (n div 16777216), of_nat (n div 65536), of_nat (n div 256), of_nat n]"
proof -
  have four: "(4::nat) = Suc (Suc (Suc (Suc 0)))" by simp
  show ?thesis unfolding four by simp
qed

lemma of_nat_mod_256: "(of_nat (n mod 256) :: byte) = of_nat n"
  by (simp add: word_of_nat_eq_iff take_bit_eq_mod)

lemma be_bytes_8_split:
  assumes "l < 4294967296"
  shows "be_bytes 8 (h * 4294967296 + l) = be_bytes 4 h @ be_bytes 4 l"
proof -
  have "be_bytes (4 + 4) (h * 4294967296 + l)
      = be_bytes 4 ((h * 4294967296 + l) div 256 ^ 4) @ be_bytes 4 (h * 4294967296 + l)"
    by (rule be_bytes_append)
  moreover have "(h * 4294967296 + l) div 256 ^ 4 = h" using assms by simp
  moreover have "be_bytes 4 (h * 4294967296 + l) = be_bytes 4 l"
    by (rule be_bytes_cong) simp
  ultimately show ?thesis by simp
qed

subsection \<open>The two halves of an Integer\<close>

lemma uint_sint_cases:
  fixes w :: "32 word"
  shows "uint w = (if sint w < 0 then sint w + 4294967296 else sint w)"
proof -
  have m: "uint w = sint w mod 4294967296"
    by (simp add: uint_sint take_bit_eq_mod)
  have lo: "- 2147483648 \<le> sint w" using sint_ge [of w] by simp
  have hi: "sint w < 2147483648" using sint_lt [of w] by simp
  show ?thesis
  proof (cases "sint w < 0")
    case True
    have "sint w mod 4294967296 = (sint w + 4294967296) mod 4294967296"
      by simp
    also have "\<dots> = sint w + 4294967296"
      using lo True by (intro mod_pos_pos_trivial) linarith+
    finally show ?thesis using m True by simp
  next
    case False
    then have "sint w mod 4294967296 = sint w"
      using hi by (intro mod_pos_pos_trivial) linarith+
    then show ?thesis using m False by simp
  qed
qed

lemma toInt_Integer: "toInt (Integer lo hi) = sint hi * 4294967296 + uint lo"
  by (simp add: toInt_def)

lemma quot_zero:
  "- 2147483648 \<le> k * 4294967296 + l \<Longrightarrow> k * 4294967296 + l < 2147483648 \<Longrightarrow>
   - 2147483648 \<le> l \<Longrightarrow> l < 2147483648 \<Longrightarrow> k = (0::int)"
  by linarith

lemma toInt_range:
  assumes "- 2147483648 \<le> toInt (Integer lo hi)" "toInt (Integer lo hi) < 2147483648"
  shows "sint lo = toInt (Integer lo hi)" and "hi = (if sint lo < 0 then - 1 else 0)"
proof -
  have l1: "- 2147483648 \<le> sint lo" using sint_ge [of lo] by simp
  have l2: "sint lo < 2147483648" using sint_lt [of lo] by simp
  have hv: "sint hi = (if sint lo < 0 then - 1 else 0)"
  proof (cases "sint lo < 0")
    case True
    then have "toInt (Integer lo hi) = (sint hi + 1) * 4294967296 + sint lo"
      by (simp add: toInt_Integer uint_sint_cases algebra_simps)
    with assms l1 l2 have "sint hi + 1 = 0" by (intro quot_zero [of _ "sint lo"]) simp_all
    with True show ?thesis by simp
  next
    case False
    then have "toInt (Integer lo hi) = sint hi * 4294967296 + sint lo"
      by (simp add: toInt_Integer uint_sint_cases)
    with assms l1 l2 have "sint hi = 0" by (intro quot_zero [of _ "sint lo"]) simp_all
    with False show ?thesis by simp
  qed
  show "sint lo = toInt (Integer lo hi)"
    using hv by (simp add: toInt_Integer uint_sint_cases split: if_splits)
  have "word_of_int (sint hi) = hi" by simp
  then show "hi = (if sint lo < 0 then - 1 else 0)"
    unfolding hv by (simp split: if_splits)
qed

lemma twos_sint32: "twos 4 (sint (w :: 32 word)) = unat w"
proof -
  have "sint w mod 4294967296 = uint w"
    by (simp add: uint_sint take_bit_eq_mod)
  then show ?thesis by (simp add: twos_def)
qed

lemma twos_toInt64:
  "twos 8 (toInt (Integer lo hi)) = unat hi * 4294967296 + unat lo"
proof -
  let ?M = "4294967296 :: int"
  have lb: "0 \<le> uint lo" "uint lo < ?M" using uint_lt2p [of lo] by simp_all
  have hb: "0 \<le> uint hi" "uint hi < ?M" using uint_lt2p [of hi] by simp_all
  have nn: "0 \<le> uint hi * ?M + uint lo" using lb hb by simp
  have "uint hi * ?M \<le> (?M - 1) * ?M" using hb by (intro mult_right_mono) simp_all
  then have ub: "uint hi * ?M + uint lo < ?M * ?M" using lb by simp
  have "\<exists>c. toInt (Integer lo hi) = uint hi * ?M + uint lo + c * (?M * ?M)"
  proof (cases "sint hi < 0")
    case True
    then have "toInt (Integer lo hi) = uint hi * ?M + uint lo + (- 1) * (?M * ?M)"
      by (simp add: toInt_Integer uint_sint_cases [of hi])
    then show ?thesis by blast
  next
    case False
    then have "toInt (Integer lo hi) = uint hi * ?M + uint lo + 0 * (?M * ?M)"
      by (simp add: toInt_Integer uint_sint_cases [of hi])
    then show ?thesis by blast
  qed
  then obtain c where c: "toInt (Integer lo hi) = uint hi * ?M + uint lo + c * (?M * ?M)" ..
  have "toInt (Integer lo hi) mod (?M * ?M) = (uint hi * ?M + uint lo) mod (?M * ?M)"
    unfolding c by (rule mod_mult_self1)
  also have "\<dots> = uint hi * ?M + uint lo"
    using nn ub by (rule mod_pos_pos_trivial)
  finally have "toInt (Integer lo hi) mod 18446744073709551616 = uint hi * ?M + uint lo"
    by simp
  then have "twos 8 (toInt (Integer lo hi)) = nat (uint hi * ?M + uint lo)"
    by (simp add: twos_def)
  also have "\<dots> = unat hi * 4294967296 + unat lo"
    by (simp add: nat_add_distrib nat_mult_distrib)
  finally show ?thesis .
qed

subsection \<open>packInteger\<close>

lemma packInteger_unfold:
  "packInteger (Integer lo hi) s =
    (let v = toInt (Integer lo hi) in
     if - 16 \<le> v \<and> v < 128 then emit (be_bytes 1 (twos 1 (sint lo))) s
     else if - 128 \<le> v \<and> v < - 16 then emit (0xC8 # be_bytes 1 (twos 1 (sint lo))) s
     else if - 32768 \<le> v \<and> v < 32768 then emit (0xC9 # be_bytes 2 (twos 2 (sint lo))) s
     else if - 2147483648 \<le> v \<and> v < 2147483648 then emit (0xCA # be_bytes 4 (twos 4 (sint lo))) s
     else emit (0xCB # be_bytes 4 (twos 4 (sint hi)) @ be_bytes 4 (twos 4 (sint lo))) s)"
  by (simp add: packInteger_def Let_def greaterThanOrEqual_def lessThan_Integer_def
      writeUInt8_emit writeInt8_def writeInt16_def writeInt32_def marker_defs emit_def)

lemma packInteger_emits:
  "packInteger (Integer lo hi) s =
     Done (s\<lparr>written := written s @ integer_tier (toInt (Integer lo hi))\<rparr>)"
proof (cases "- 2147483648 \<le> toInt (Integer lo hi) \<and> toInt (Integer lo hi) < 2147483648")
  case True
  then have lo: "sint lo = toInt (Integer lo hi)"
    using toInt_range(1) [of lo hi] by simp
  show ?thesis
    unfolding packInteger_unfold integer_tier_def Let_def lo
    using True by (simp add: emit_def)
next
  case False
  have e: "be_bytes 4 (twos 4 (sint hi)) @ be_bytes 4 (twos 4 (sint lo))
           = be_bytes 8 (twos 8 (toInt (Integer lo hi)))"
    unfolding twos_sint32 twos_toInt64
    by (rule be_bytes_8_split [symmetric]) (use unsigned_less [of lo, where ?'a = nat] in simp)
  have c: "(- 16 \<le> toInt (Integer lo hi) \<and> toInt (Integer lo hi) < 128) = False"
    "(- 128 \<le> toInt (Integer lo hi) \<and> toInt (Integer lo hi) < - 16) = False"
    "(- 32768 \<le> toInt (Integer lo hi) \<and> toInt (Integer lo hi) < 32768) = False"
    "(- 2147483648 \<le> toInt (Integer lo hi) \<and> toInt (Integer lo hi) < 2147483648) = False"
    using False by auto
  show ?thesis
    unfolding packInteger_unfold integer_tier_def Let_def c if_False e
    by (simp add: emit_def)
qed

text \<open>
  C2. For every Integer, \<open>packInteger\<close> writes exactly the bytes of the tier the
  specification's table gives for its numeric value: the raw signed byte for
  \<open>-16 \<le> x < 128\<close>, marker \<open>0xC8\<close> and one byte for \<open>-128 \<le> x < -16\<close>, \<open>0xC9\<close> and two bytes
  within 16 bits, \<open>0xCA\<close> and four bytes within 32 bits, \<open>0xCB\<close> and eight bytes (the high
  half first) otherwise. The bytes are a function of the value \<open>toInt\<close> alone.
\<close>

theorem packInteger_narrowest_tier:
  "packInteger (Integer lo hi) s =
     Done (s\<lparr>written := written s @ integer_tier (toInt (Integer lo hi))\<rparr>)"
  by (rule packInteger_emits)

lemma be_bytes_8:
  "be_bytes 8 n = be_bytes 4 (n div 4294967296) @ be_bytes 4 n"
  using be_bytes_append [of 4 4 n] by simp

text \<open>
  At the boundaries of the tiers: \<open>-17\<close>, \<open>-16\<close>, \<open>127\<close>, \<open>128\<close>, \<open>-129\<close>, \<open>-128\<close>, \<open>32767\<close>,
  \<open>-32767\<close>, \<open>32768\<close>, \<open>-32768\<close>, \<open>2^31 - 1\<close>, \<open>-(2^31 - 1)\<close>, \<open>2^31\<close> and \<open>-2^31\<close>.
\<close>

theorem packInteger_narrowest_tier_boundaries:
  "packInteger (Integer 0xFFFFFFEF 0xFFFFFFFF) \<lparr>written = [], reported = []\<rparr>
     = Done \<lparr>written = [0xC8, 0xEF], reported = []\<rparr> \<and>
   packInteger (Integer 0xFFFFFFF0 0xFFFFFFFF) \<lparr>written = [], reported = []\<rparr>
     = Done \<lparr>written = [0xF0], reported = []\<rparr> \<and>
   packInteger (Integer 0x0000007F 0x00000000) \<lparr>written = [], reported = []\<rparr>
     = Done \<lparr>written = [0x7F], reported = []\<rparr> \<and>
   packInteger (Integer 0x00000080 0x00000000) \<lparr>written = [], reported = []\<rparr>
     = Done \<lparr>written = [0xC9, 0x00, 0x80], reported = []\<rparr> \<and>
   packInteger (Integer 0xFFFFFF7F 0xFFFFFFFF) \<lparr>written = [], reported = []\<rparr>
     = Done \<lparr>written = [0xC9, 0xFF, 0x7F], reported = []\<rparr> \<and>
   packInteger (Integer 0xFFFFFF80 0xFFFFFFFF) \<lparr>written = [], reported = []\<rparr>
     = Done \<lparr>written = [0xC8, 0x80], reported = []\<rparr> \<and>
   packInteger (Integer 0x00007FFF 0x00000000) \<lparr>written = [], reported = []\<rparr>
     = Done \<lparr>written = [0xC9, 0x7F, 0xFF], reported = []\<rparr> \<and>
   packInteger (Integer 0xFFFF8001 0xFFFFFFFF) \<lparr>written = [], reported = []\<rparr>
     = Done \<lparr>written = [0xC9, 0x80, 0x01], reported = []\<rparr> \<and>
   packInteger (Integer 0x00008000 0x00000000) \<lparr>written = [], reported = []\<rparr>
     = Done \<lparr>written = [0xCA, 0x00, 0x00, 0x80, 0x00], reported = []\<rparr> \<and>
   packInteger (Integer 0xFFFF8000 0xFFFFFFFF) \<lparr>written = [], reported = []\<rparr>
     = Done \<lparr>written = [0xC9, 0x80, 0x00], reported = []\<rparr> \<and>
   packInteger (Integer 0x7FFFFFFF 0x00000000) \<lparr>written = [], reported = []\<rparr>
     = Done \<lparr>written = [0xCA, 0x7F, 0xFF, 0xFF, 0xFF], reported = []\<rparr> \<and>
   packInteger (Integer 0x80000001 0xFFFFFFFF) \<lparr>written = [], reported = []\<rparr>
     = Done \<lparr>written = [0xCA, 0x80, 0x00, 0x00, 0x01], reported = []\<rparr> \<and>
   packInteger (Integer 0x80000000 0x00000000) \<lparr>written = [], reported = []\<rparr>
     = Done \<lparr>written = [0xCB, 0x00, 0x00, 0x00, 0x00, 0x80, 0x00, 0x00, 0x00], reported = []\<rparr> \<and>
   packInteger (Integer 0x80000000 0xFFFFFFFF) \<lparr>written = [], reported = []\<rparr>
     = Done \<lparr>written = [0xCA, 0x80, 0x00, 0x00, 0x00], reported = []\<rparr>"
proof -
  have b0: "packInteger (Integer 0xFFFFFFEF 0xFFFFFFFF) \<lparr>written = [], reported = []\<rparr>
     = Done \<lparr>written = [0xC8, 0xEF], reported = []\<rparr>"
    using packInteger_narrowest_tier [of "0xFFFFFFEF" "0xFFFFFFFF" "\<lparr>written = [], reported = []\<rparr>"]
    by (simp add: integer_tier_def toInt_def twos_def be_bytes_2 be_bytes_4 be_bytes_8)
  have b1: "packInteger (Integer 0xFFFFFFF0 0xFFFFFFFF) \<lparr>written = [], reported = []\<rparr>
     = Done \<lparr>written = [0xF0], reported = []\<rparr>"
    using packInteger_narrowest_tier [of "0xFFFFFFF0" "0xFFFFFFFF" "\<lparr>written = [], reported = []\<rparr>"]
    by (simp add: integer_tier_def toInt_def twos_def be_bytes_2 be_bytes_4 be_bytes_8)
  have b2: "packInteger (Integer 0x0000007F 0x00000000) \<lparr>written = [], reported = []\<rparr>
     = Done \<lparr>written = [0x7F], reported = []\<rparr>"
    using packInteger_narrowest_tier [of "0x0000007F" "0x00000000" "\<lparr>written = [], reported = []\<rparr>"]
    by (simp add: integer_tier_def toInt_def twos_def be_bytes_2 be_bytes_4 be_bytes_8)
  have b3: "packInteger (Integer 0x00000080 0x00000000) \<lparr>written = [], reported = []\<rparr>
     = Done \<lparr>written = [0xC9, 0x00, 0x80], reported = []\<rparr>"
    using packInteger_narrowest_tier [of "0x00000080" "0x00000000" "\<lparr>written = [], reported = []\<rparr>"]
    by (simp add: integer_tier_def toInt_def twos_def be_bytes_2 be_bytes_4 be_bytes_8)
  have b4: "packInteger (Integer 0xFFFFFF7F 0xFFFFFFFF) \<lparr>written = [], reported = []\<rparr>
     = Done \<lparr>written = [0xC9, 0xFF, 0x7F], reported = []\<rparr>"
    using packInteger_narrowest_tier [of "0xFFFFFF7F" "0xFFFFFFFF" "\<lparr>written = [], reported = []\<rparr>"]
    by (simp add: integer_tier_def toInt_def twos_def be_bytes_2 be_bytes_4 be_bytes_8)
  have b5: "packInteger (Integer 0xFFFFFF80 0xFFFFFFFF) \<lparr>written = [], reported = []\<rparr>
     = Done \<lparr>written = [0xC8, 0x80], reported = []\<rparr>"
    using packInteger_narrowest_tier [of "0xFFFFFF80" "0xFFFFFFFF" "\<lparr>written = [], reported = []\<rparr>"]
    by (simp add: integer_tier_def toInt_def twos_def be_bytes_2 be_bytes_4 be_bytes_8)
  have b6: "packInteger (Integer 0x00007FFF 0x00000000) \<lparr>written = [], reported = []\<rparr>
     = Done \<lparr>written = [0xC9, 0x7F, 0xFF], reported = []\<rparr>"
    using packInteger_narrowest_tier [of "0x00007FFF" "0x00000000" "\<lparr>written = [], reported = []\<rparr>"]
    by (simp add: integer_tier_def toInt_def twos_def be_bytes_2 be_bytes_4 be_bytes_8)
  have b7: "packInteger (Integer 0xFFFF8001 0xFFFFFFFF) \<lparr>written = [], reported = []\<rparr>
     = Done \<lparr>written = [0xC9, 0x80, 0x01], reported = []\<rparr>"
    using packInteger_narrowest_tier [of "0xFFFF8001" "0xFFFFFFFF" "\<lparr>written = [], reported = []\<rparr>"]
    by (simp add: integer_tier_def toInt_def twos_def be_bytes_2 be_bytes_4 be_bytes_8)
  have b8: "packInteger (Integer 0x00008000 0x00000000) \<lparr>written = [], reported = []\<rparr>
     = Done \<lparr>written = [0xCA, 0x00, 0x00, 0x80, 0x00], reported = []\<rparr>"
    using packInteger_narrowest_tier [of "0x00008000" "0x00000000" "\<lparr>written = [], reported = []\<rparr>"]
    by (simp add: integer_tier_def toInt_def twos_def be_bytes_2 be_bytes_4 be_bytes_8)
  have b9: "packInteger (Integer 0xFFFF8000 0xFFFFFFFF) \<lparr>written = [], reported = []\<rparr>
     = Done \<lparr>written = [0xC9, 0x80, 0x00], reported = []\<rparr>"
    using packInteger_narrowest_tier [of "0xFFFF8000" "0xFFFFFFFF" "\<lparr>written = [], reported = []\<rparr>"]
    by (simp add: integer_tier_def toInt_def twos_def be_bytes_2 be_bytes_4 be_bytes_8)
  have b10: "packInteger (Integer 0x7FFFFFFF 0x00000000) \<lparr>written = [], reported = []\<rparr>
     = Done \<lparr>written = [0xCA, 0x7F, 0xFF, 0xFF, 0xFF], reported = []\<rparr>"
    using packInteger_narrowest_tier [of "0x7FFFFFFF" "0x00000000" "\<lparr>written = [], reported = []\<rparr>"]
    by (simp add: integer_tier_def toInt_def twos_def be_bytes_2 be_bytes_4 be_bytes_8)
  have b11: "packInteger (Integer 0x80000001 0xFFFFFFFF) \<lparr>written = [], reported = []\<rparr>
     = Done \<lparr>written = [0xCA, 0x80, 0x00, 0x00, 0x01], reported = []\<rparr>"
    using packInteger_narrowest_tier [of "0x80000001" "0xFFFFFFFF" "\<lparr>written = [], reported = []\<rparr>"]
    by (simp add: integer_tier_def toInt_def twos_def be_bytes_2 be_bytes_4 be_bytes_8)
  have b12: "packInteger (Integer 0x80000000 0x00000000) \<lparr>written = [], reported = []\<rparr>
     = Done \<lparr>written = [0xCB, 0x00, 0x00, 0x00, 0x00, 0x80, 0x00, 0x00, 0x00], reported = []\<rparr>"
    using packInteger_narrowest_tier [of "0x80000000" "0x00000000" "\<lparr>written = [], reported = []\<rparr>"]
    by (simp add: integer_tier_def toInt_def twos_def be_bytes_2 be_bytes_4 be_bytes_8)
  have b13: "packInteger (Integer 0x80000000 0xFFFFFFFF) \<lparr>written = [], reported = []\<rparr>
     = Done \<lparr>written = [0xCA, 0x80, 0x00, 0x00, 0x00], reported = []\<rparr>"
    using packInteger_narrowest_tier [of "0x80000000" "0xFFFFFFFF" "\<lparr>written = [], reported = []\<rparr>"]
    by (simp add: integer_tier_def toInt_def twos_def be_bytes_2 be_bytes_4 be_bytes_8)
  show ?thesis
    by (intro conjI b0 b1 b2 b3 b4 b5 b6 b7 b8 b9 b10 b11 b12 b13)
qed

subsection \<open>Size headers\<close>

lemma nibble_cases: "(n::nat) < 16 \<Longrightarrow> n \<in> {0,1,2,3,4,5,6,7,8,9,10,11,12,13,14,15}"
  by simp arith

lemma or_tiny:
  assumes "(n::nat) < 16"
  shows "128 OR n = 128 + n" "144 OR n = 144 + n" "160 OR n = 160 + n" "176 OR n = 176 + n"
  using nibble_cases [OF assms] by auto

lemma and_tiny_high:
  assumes "(n::nat) < 16"
  shows "(128 + n) AND 240 = 128" "(144 + n) AND 240 = 144" "(160 + n) AND 240 = 160" "(176 + n) AND 240 = 176"
  using nibble_cases [OF assms] by auto

lemma and_tiny_low:
  assumes "(n::nat) < 16"
  shows "(128 + n) AND 15 = n" "(144 + n) AND 15 = n" "(160 + n) AND 15 = n" "(176 + n) AND 15 = n"
  using nibble_cases [OF assms] by auto

lemma packListHeader_emit:
  assumes "n < 4294967296"
  shows "packListHeader n oe s = emit (size_header TINY_LIST LIST_8 LIST_16 LIST_32 n) s"
proof -
  have t: "n < 16 \<Longrightarrow> TINY_LIST OR n = TINY_LIST + n"
    by (simp add: TINY_LIST_def or_tiny)
  show ?thesis
    using assms t
    by (simp add: packListHeader_def size_header_def writeUInt8_emit emit_def
        be_bytes_2 be_bytes_4 of_nat_mod_256)
qed

lemma packMapHeader_emit:
  assumes "n < 4294967296"
  shows "packMapHeader n oe s = emit (size_header TINY_MAP MAP_8 MAP_16 MAP_32 n) s"
proof -
  have t: "n < 16 \<Longrightarrow> TINY_MAP OR n = TINY_MAP + n"
    by (simp add: TINY_MAP_def or_tiny)
  show ?thesis
    using assms t
    by (simp add: packMapHeader_def size_header_def writeUInt8_emit emit_def
        be_bytes_2 be_bytes_4 of_nat_mod_256)
qed

lemma packString_emit:
  assumes "length x < 4294967296"
  shows "packString x oe s =
    emit (size_header TINY_STRING STRING_8 STRING_16 STRING_32 (length x) @ x) s"
proof -
  have t: "length x < 16 \<Longrightarrow> TINY_STRING OR length x = TINY_STRING + length x"
    by (simp add: TINY_STRING_def or_tiny)
  show ?thesis
    using assms t
    by (simp add: packString_def Let_def utf8_encode_def size_header_def writeUInt8_emit
        writeBytes_def emit_def be_bytes_2 be_bytes_4 of_nat_mod_256)
qed

lemma packStructHeader_emit:
  assumes "n < 65536"
  shows "packStructHeader n sig oe s =
    emit (if n < 16 then [of_nat (TINY_STRUCT + n), sig]
          else if n < 256 then [of_nat STRUCT_8, of_nat n, sig]
          else of_nat STRUCT_16 # be_bytes 2 n) s"
proof -
  have t: "n < 16 \<Longrightarrow> TINY_STRUCT OR n = TINY_STRUCT + n"
    by (simp add: TINY_STRUCT_def or_tiny)
  show ?thesis
    using assms t
    by (simp add: packStructHeader_def writeUInt8_emit emit_def
        be_bytes_2 of_nat_mod_256)
qed

lemma headers16:
  assumes "256 \<le> n" "n < 65536"
  shows "packListHeader n oe s = Done (s\<lparr>written := written s @ 0xD5 # be_bytes 2 n\<rparr>)"
    and "packMapHeader n oe s = Done (s\<lparr>written := written s @ 0xD9 # be_bytes 2 n\<rparr>)"
    and "packStructHeader n sig oe s = Done (s\<lparr>written := written s @ 0xDD # be_bytes 2 n\<rparr>)"
    and "length x = n \<Longrightarrow>
         packString x oe s = Done (s\<lparr>written := written s @ 0xD1 # be_bytes 2 n @ x\<rparr>)"
    and "be_bytes 2 n = [of_nat (n div 256), of_nat (n mod 256)]"
  using assms
  by (simp_all add: packListHeader_emit packMapHeader_emit packStructHeader_emit
      packString_emit size_header_def emit_def marker_defs be_bytes_2 of_nat_mod_256)

lemma be_nat_2: "n < 65536 \<Longrightarrow> be_nat (be_bytes 2 n) = n"
  by (simp add: be_nat_be_bytes)

lemma be_nat_4: "n < 4294967296 \<Longrightarrow> be_nat (be_bytes 4 n) = n"
  by (simp add: be_nat_be_bytes)

lemma headers32:
  assumes "65536 \<le> n" "n < 4294967296"
  shows "packListHeader n oe s = Done (s\<lparr>written := written s @ 0xD6 # be_bytes 4 n\<rparr>)"
    and "packMapHeader n oe s = Done (s\<lparr>written := written s @ 0xDA # be_bytes 4 n\<rparr>)"
    and "length x = n \<Longrightarrow>
         packString x oe s = Done (s\<lparr>written := written s @ 0xD2 # be_bytes 4 n @ x\<rparr>)"
    and "be_bytes 4 n = [of_nat (n div 16777216), of_nat (n div 65536 mod 256),
                         of_nat (n div 256 mod 256), of_nat (n mod 256)]"
  using assms
  by (simp_all add: packListHeader_emit packMapHeader_emit
      packString_emit size_header_def emit_def marker_defs be_bytes_4 of_nat_mod_256)

text \<open>
  C9. The 16-bit length prefixes (strings, lists, maps, structs) and the 32-bit length
  prefixes (strings, lists, maps) are written big-endian: after the marker come the
  bytes \<open>be_bytes 2 n\<close> (\<open>be_bytes 4 n\<close>), whose first byte is the most significant one
  and which denote \<open>n\<close> when read most significant byte first.
\<close>

theorem length_prefix_big_endian:
  "(256 \<le> n \<and> n < 65536 \<longrightarrow>
      packListHeader n oe s = Done (s\<lparr>written := written s @ 0xD5 # be_bytes 2 n\<rparr>) \<and>
      packMapHeader n oe s = Done (s\<lparr>written := written s @ 0xD9 # be_bytes 2 n\<rparr>) \<and>
      packStructHeader n sig oe s = Done (s\<lparr>written := written s @ 0xDD # be_bytes 2 n\<rparr>) \<and>
      (length x = n \<longrightarrow>
         packString x oe s = Done (s\<lparr>written := written s @ 0xD1 # be_bytes 2 n @ x\<rparr>)) \<and>
      be_bytes 2 n = [of_nat (n div 256), of_nat (n mod 256)] \<and>
      be_nat (be_bytes 2 n) = n) \<and>
   (65536 \<le> n \<and> n < 4294967296 \<longrightarrow>
      packListHeader n oe s = Done (s\<lparr>written := written s @ 0xD6 # be_bytes 4 n\<rparr>) \<and>
      packMapHeader n oe s = Done (s\<lparr>written := written s @ 0xDA # be_bytes 4 n\<rparr>) \<and>
      (length x = n \<longrightarrow>
         packString x oe s = Done (s\<lparr>written := written s @ 0xD2 # be_bytes 4 n @ x\<rparr>)) \<and>
      be_bytes 4 n = [of_nat (n div 16777216), of_nat (n div 65536 mod 256),
                      of_nat (n div 256 mod 256), of_nat (n mod 256)] \<and>
      be_nat (be_bytes 4 n) = n)"
  using headers16 [of n] headers32 [of n] be_nat_2 [of n] be_nat_4 [of n] by blast

text \<open>The length \<open>0x0123\<close> is written as \<open>01 23\<close>, the length \<open>0x01234567\<close> as \<open>01 23 45 67\<close>.\<close>

theorem length_prefix_big_endian_witness:
  "packListHeader 0x0123 Supplied \<lparr>written = [], reported = []\<rparr>
     = Done \<lparr>written = [0xD5, 0x01, 0x23], reported = []\<rparr> \<and>
   packMapHeader 0x0123 Supplied \<lparr>written = [], reported = []\<rparr>
     = Done \<lparr>written = [0xD9, 0x01, 0x23], reported = []\<rparr> \<and>
   packStructHeader 0x0123 0x4E Supplied \<lparr>written = [], reported = []\<rparr>
     = Done \<lparr>written = [0xDD, 0x01, 0x23], reported = []\<rparr> \<and>
   packString (replicate 0x0123 0x41) Supplied \<lparr>written = [], reported = []\<rparr>
     = Done \<lparr>written = [0xD1, 0x01, 0x23] @ replicate 0x0123 0x41, reported = []\<rparr> \<and>
   packListHeader 0x01234567 Supplied \<lparr>written = [], reported = []\<rparr>
     = Done \<lparr>written = [0xD6, 0x01, 0x23, 0x45, 0x67], reported = []\<rparr>"
  using length_prefix_big_endian [of "0x0123" Supplied "\<lparr>written = [], reported = []\<rparr>" "0x4E" "replicate 0x0123 0x41"]
    length_prefix_big_endian [of "0x01234567" Supplied "\<lparr>written = [], reported = []\<rparr>" "0x4E" "[]"]
  by simp

text \<open>
  C3. The header of a Structure with 256 fields: the marker \<open>0xDD\<close> and the two bytes of
  the size are all that is written; the signature \<open>0x4E\<close> is not.
\<close>

theorem packStructHeader_16_omits_signature:
  "packStructHeader 256 0x4E Supplied \<lparr>written = [], reported = []\<rparr>
     = Done \<lparr>written = [0xDD, 0x01, 0x00], reported = []\<rparr>"
  by (simp add: packStructHeader_emit emit_def marker_defs be_bytes_2)

subsection \<open>Packing lists, maps and structures\<close>

lemma run_map_filter:
  assumes "\<And>x s. \<not> p x \<Longrightarrow> f x s = Done s"
  shows "run (map f xs) s = run (map f (filter p xs)) s"
proof (induction xs arbitrary: s)
  case Nil
  show ?case by simp
next
  case (Cons x xs)
  show ?case
  proof (cases "p x")
    case True
    then show ?thesis using Cons.IH by (simp split: outcome.splits)
  next
    case False
    then show ?thesis using Cons.IH assms by simp
  qed
qed

lemma pack_Object:
  "pack oe (Object x) s =
    run (packMapHeader (length (filter (\<lambda>(key, v). v \<noteq> Undefined) x)) oe #
         map (\<lambda>(key, v) t. if v \<noteq> Undefined
                then run [packString key Absent, pack oe v] t else Done t) x) s"
proof -
  have e: "pack oe = (\<lambda>v u. case packable oe v u of (u', thunk) \<Rightarrow> thunk u')"
    by (intro ext) (simp add: pack_def)
  show ?thesis unfolding e by simp
qed

lemma pack_Object_filter:
  "pack oe (Object m) s = pack oe (Object (filter (\<lambda>(key, v). v \<noteq> Undefined) m)) s"
proof -
  let ?p = "\<lambda>(key, v). v \<noteq> Undefined"
  let ?f = "\<lambda>(key, v) t. if v \<noteq> Undefined
                then run [packString key Absent, pack oe v] t else Done t"
  have skip: "run (map ?f m) t = run (map ?f (filter ?p m)) t" for t
    by (rule run_map_filter) auto
  show ?thesis
    unfolding pack_Object using skip by (simp split: outcome.splits)
qed

lemma pack_Object_surviving:
  "pack oe (Object m) s =
    run (packMapHeader (length (filter (\<lambda>(key, v). v \<noteq> Undefined) m)) oe #
         map (\<lambda>(key, v). run [packString key Absent, pack oe v])
             (filter (\<lambda>(key, v). v \<noteq> Undefined) m)) s"
proof -
  let ?p = "\<lambda>(key, v). v \<noteq> Undefined"
  let ?f = "\<lambda>(key, v) t. if v \<noteq> Undefined
                then run [packString key Absent, pack oe v] t else Done t"
  let ?g = "\<lambda>(key, v). run [packString key Absent, pack oe v]"
  have m: "map ?f (filter ?p m) = map ?g (filter ?p m)"
    by (rule map_cong) (auto intro!: ext)
  have ff: "filter ?p (filter ?p m) = filter ?p m"
    by simp
  have "pack oe (Object m) s = pack oe (Object (filter ?p m)) s"
    by (rule pack_Object_filter)
  also have "\<dots> = run (packMapHeader (length (filter ?p (filter ?p m))) oe #
                       map ?f (filter ?p m)) s"
    by (rule pack_Object)
  also have "\<dots> = run (packMapHeader (length (filter ?p m)) oe # map ?g (filter ?p m)) s"
    by (simp only: m ff)
  finally show ?thesis .
qed

text \<open>
  C5. Packing a map writes what packing the map without its undefined-valued entries
  writes: the header carries the number of the entries whose value is not undefined,
  and the body consists of the key and the value of these entries alone. The header is
  the map header of the marker table for that number (up to \<open>2^32 - 1\<close> entries): the
  marker \<open>A0 + n\<close>, or \<open>D8\<close>, \<open>D9\<close>, \<open>DA\<close> and the number on 1, 2, 4 bytes; a key is
  written as a string, its header and its bytes.
\<close>

theorem undefined_entries_filtered:
  "pack oe (Object m) s = pack oe (Object (filter (\<lambda>(key, v). v \<noteq> Undefined) m)) s \<and>
   pack oe (Object m) s =
    run (packMapHeader (length (filter (\<lambda>(key, v). v \<noteq> Undefined) m)) oe #
         map (\<lambda>(key, v). run [packString key Absent, pack oe v])
             (filter (\<lambda>(key, v). v \<noteq> Undefined) m)) s \<and>
   (length (filter (\<lambda>(key, v). v \<noteq> Undefined) m) < 4294967296 \<longrightarrow>
     packMapHeader (length (filter (\<lambda>(key, v). v \<noteq> Undefined) m)) oe s =
       Done (s\<lparr>written := written s @
               size_header TINY_MAP MAP_8 MAP_16 MAP_32
                 (length (filter (\<lambda>(key, v). v \<noteq> Undefined) m))\<rparr>)) \<and>
   (length k < 4294967296 \<longrightarrow>
     packString k Absent t =
       Done (t\<lparr>written := written t @
               size_header TINY_STRING STRING_8 STRING_16 STRING_32 (length k) @ k\<rparr>))"
  using pack_Object_filter [of oe m s] pack_Object_surviving [of oe m s]
    packMapHeader_emit [of "length (filter (\<lambda>(key, v). v \<noteq> Undefined) m)" oe s]
    packString_emit [of k Absent t]
  by (simp add: emit_def)

text \<open>
  The map \<open>{"a": 1, "b": undefined, "c": 2}\<close> is written as \<open>{"a": 1, "c": 2}\<close> is:
  \<open>A2 81 61 01 81 63 02\<close>, the header \<open>A2\<close> counting the two entries that remain.
\<close>

theorem undefined_entries_filtered_witness:
  "pack Supplied (Object [([0x61], Integer 1 0), ([0x62], Undefined), ([0x63], Integer 2 0)])
        \<lparr>written = [], reported = []\<rparr>
     = pack Supplied (Object [([0x61], Integer 1 0), ([0x63], Integer 2 0)])
        \<lparr>written = [], reported = []\<rparr> \<and>
   pack Supplied (Object [([0x61], Integer 1 0), ([0x62], Undefined), ([0x63], Integer 2 0)])
        \<lparr>written = [], reported = []\<rparr>
     = Done \<lparr>written = [0xA2, 0x81, 0x61, 0x01, 0x81, 0x63, 0x02], reported = []\<rparr> \<and>
   packMapHeader 2 Supplied \<lparr>written = [], reported = []\<rparr>
     = Done \<lparr>written = [0xA2], reported = []\<rparr> \<and>
   packString [0x61] Absent \<lparr>written = [], reported = []\<rparr>
     = Done \<lparr>written = [0x81, 0x61], reported = []\<rparr>"
proof -
  let ?m = "[([0x61], Integer 1 0), ([0x62], Undefined), ([0x63], Integer 2 0)] :: (jsstring \<times> val) list"
  let ?s = "\<lparr>written = [], reported = []\<rparr>"
  note t = undefined_entries_filtered [of Supplied ?m ?s "[0x61]" ?s]
  have a: "pack Supplied (Object ?m) ?s
      = pack Supplied (Object [([0x61], Integer 1 0), ([0x63], Integer 2 0)]) ?s"
    using t [THEN conjunct1] by simp
  have h: "packMapHeader 2 Supplied ?s = Done \<lparr>written = [0xA2], reported = []\<rparr>"
    using t [THEN conjunct2, THEN conjunct2, THEN conjunct1]
    by (simp add: size_header_def marker_defs numeral_2_eq_2)
  have b: "pack Supplied (Object ?m) ?s
      = Done \<lparr>written = [0xA2, 0x81, 0x61, 0x01, 0x81, 0x63, 0x02], reported = []\<rparr>"
    using t [THEN conjunct2, THEN conjunct1]
    by (simp add: packMapHeader_emit packString_emit size_header_def emit_def marker_defs
        pack_def packInteger_emits integer_tier_def toInt_def twos_def)
  have k: "packString [0x61] Absent ?s = Done \<lparr>written = [0x81, 0x61], reported = []\<rparr>"
    using t [THEN conjunct2, THEN conjunct2, THEN conjunct2]
    by (simp add: size_header_def marker_defs)
  from a b h k show ?thesis by (intro conjI)
qed

lemma pack_Array:
  "pack oe (Array x) s =
    run (packListHeader (length x) oe #
         map (\<lambda>xi. if xi = Undefined then writeUInt8 NULL else pack oe xi) x) s"
proof -
  have "(\<lambda>xi t. if xi = Undefined
                 then (case packable oe Null t of (t', thunk) \<Rightarrow> thunk t')
                 else (case packable oe xi t of (t', thunk) \<Rightarrow> thunk t'))
      = (\<lambda>xi. if xi = Undefined then writeUInt8 NULL else pack oe xi)"
    by (intro ext) (simp add: pack_def)
  then show ?thesis by (simp only: pack_def packable.simps prod.case)
qed

lemma pack_Null: "pack oe Null = writeUInt8 NULL"
  by (rule ext) (simp add: pack_def)

lemma pack_Array_Null:
  "pack oe (Array x) s = pack oe (Array (map (\<lambda>xi. if xi = Undefined then Null else xi) x)) s"
proof -
  have "map (\<lambda>xi. if xi = Undefined then writeUInt8 NULL else pack oe xi)
          (map (\<lambda>xi. if xi = Undefined then Null else xi) x)
      = map (\<lambda>xi. if xi = Undefined then writeUInt8 NULL else pack oe xi) x"
    by (induction x) (simp_all add: pack_Null)
  then show ?thesis by (simp only: pack_Array length_map)
qed

text \<open>
  C8. Packing a list writes the list header for the full length of the list and then
  the elements in order, where an undefined element is written as the single byte
  \<open>0xC0\<close> of Null: the list is written as the list with Null in place of every undefined
  element is.
\<close>

theorem undefined_elements_packed_as_Null:
  "pack oe (Array x) s =
     run (packListHeader (length x) oe #
          map (\<lambda>xi. if xi = Undefined then writeUInt8 NULL else pack oe xi) x) s \<and>
   (length x < 4294967296 \<longrightarrow>
     packListHeader (length x) oe s =
       Done (s\<lparr>written := written s @ size_header TINY_LIST LIST_8 LIST_16 LIST_32 (length x)\<rparr>)) \<and>
   writeUInt8 NULL s = Done (s\<lparr>written := written s @ [0xC0]\<rparr>) \<and>
   pack oe (Array x) s = pack oe (Array (map (\<lambda>xi. if xi = Undefined then Null else xi) x)) s"
  using pack_Array [of oe x s] pack_Array_Null [of oe x s] packListHeader_emit [of "length x" oe s]
  by (simp add: emit_def writeUInt8_emit NULL_def)

text \<open>The list \<open>[1, undefined, 3]\<close> is written as \<open>93 01 C0 03\<close>.\<close>

theorem undefined_elements_packed_as_Null_witness:
  "pack Supplied (Array [Integer 1 0, Undefined, Integer 3 0]) \<lparr>written = [], reported = []\<rparr>
     = Done \<lparr>written = [0x93, 0x01, 0xC0, 0x03], reported = []\<rparr>"
  using undefined_elements_packed_as_Null [of Supplied "[Integer 1 0, Undefined, Integer 3 0]"
      "\<lparr>written = [], reported = []\<rparr>"]
  by (simp add: size_header_def emit_def marker_defs writeUInt8_emit
     pack_def packInteger_emits integer_tier_def toInt_def twos_def)

lemma collect_replicate_Null:
  "collect (\<lambda>f t. packable oe f t) (replicate n Null) s = (s, replicate n (writeUInt8 NULL))"
  by (induction n) simp_all

text \<open>
  C7. A Structure with 65536 fields, packed with an \<open>onError\<close> callback supplied: the
  Packer throws a TypeError, and the callback receives nothing.
\<close>

theorem pack_oversized_Structure_throws:
  "pack Supplied (Structure 0x4E (replicate 65536 Null)) \<lparr>written = [], reported = []\<rparr>
    = Thrown TypeError \<lparr>written = [], reported = []\<rparr>"
  by (simp add: pack_def collect_replicate_Null packStruct_def packStructHeader_def)

subsection \<open>Markers outside the grammar\<close>

lemma readUInt8_Cons: "readUInt8 (b # rest) = Return (unat b, rest)"
  by (simp add: readUInt8_def readBytes_def be_nat_def)

lemma unknown_markers_enum:
  "{0xC4..0xC7} \<union> {0xCC..0xCF} \<union> {0xD3, 0xD7, 0xDB, 0xDE, 0xDF} \<union> {0xE0..0xEF} =
   {224, 225, 226, 227, 228, 229, 230, 231, 232, 233, 234, 235, 236, 237, 238, 239,
    211, 215, 219, 222, 223, 204, 205, 206, 207, 196, 197, 198, 199 :: nat}"
  by (simp add: atLeastAtMost_upt upt_rec_numeral del: set_upt)

lemma unpack_body_unknown_all:
  "\<forall>m \<in> {224, 225, 226, 227, 228, 229, 230, 231, 232, 233, 234, 235, 236, 237, 238, 239,
    211, 215, 219, 222, 223, 204, 205, 206, 207, 196, 197, 198, 199 :: nat}.
   unpack_body toStr ms u (of_nat m # rest) =
     Raise (Neo4j (Neo4jError (''Unknown packed value with marker '' @
        [''0123456789abcdef'' ! (m div 16), ''0123456789abcdef'' ! (m mod 16)])))"
  by (simp add: unpack_body_def readUInt8_Cons marker_defs Let_def)

lemma unpack_unknown:
  assumes "m \<in> {0xC4..0xC7} \<union> {0xCC..0xCF} \<union> {0xD3, 0xD7, 0xDB, 0xDE, 0xDF} \<union> {0xE0..0xEF}"
  shows "unpack toStr ms (Suc depth) (of_nat m # rest) =
     Raise (Neo4j (Neo4jError (''Unknown packed value with marker '' @
        [''0123456789abcdef'' ! (m div 16), ''0123456789abcdef'' ! (m mod 16)])))"
proof -
  from assms have "m \<in> {224, 225, 226, 227, 228, 229, 230, 231, 232, 233, 234, 235, 236, 237, 238, 239,
    211, 215, 219, 222, 223, 204, 205, 206, 207, 196, 197, 198, 199 :: nat}"
    unfolding unknown_markers_enum .
  with unpack_body_unknown_all [of toStr ms "unpack toStr ms depth" rest] show ?thesis
    unfolding unpack.simps by (rule bspec)
qed

text \<open>
  C4 (as amended). For every marker outside the grammar, \<open>unpack\<close> raises the error whose
  message is \<open>Unknown packed value with marker\<close>, a space, and the marker as two
  lower-case hexadecimal digits; the message has no \<open>0x\<close> before the digits.
\<close>

theorem unknown_marker_raises:
  assumes "m \<in> {0xC4..0xC7} \<union> {0xCC..0xCF} \<union> {0xD3, 0xD7, 0xDB, 0xDE, 0xDF} \<union> {0xE0..0xEF}"
  shows "unpack toStr ms (Suc depth) (of_nat m # rest) =
     Raise (Neo4j (Neo4jError (''Unknown packed value with marker '' @
        [''0123456789abcdef'' ! (m div 16), ''0123456789abcdef'' ! (m mod 16)])))"
  using assms by (rule unpack_unknown)

theorem unknown_marker_raises_witness:
  "unpack (\<lambda>v. None) Map.empty 1 [0xC4] =
     Raise (Neo4j (Neo4jError ''Unknown packed value with marker c4''))"
  using unknown_marker_raises [of "0xC4" "\<lambda>v. None" Map.empty 0 "[]"] by simp

text \<open>
  The message for the single byte \<open>C4\<close> is \<open>Unknown packed value with marker c4\<close>: it
  does not have the form \<open>Unknown packed value with marker 0xNN\<close>.
\<close>

theorem unknown_marker_message_counterexample:
  "unpack (\<lambda>v. None) Map.empty 1 [0xC4] =
     Raise (Neo4j (Neo4jError ''Unknown packed value with marker c4'')) \<and>
   \<not> prefix ''Unknown packed value with marker 0x'' ''Unknown packed value with marker c4''"
  by (simp add: unpack_body_def readUInt8_Cons marker_defs Let_def)

subsection \<open>Dispatch on the marker\<close>

lemma unat_byte: "n < 256 \<Longrightarrow> unat (of_nat n :: byte) = n"
  by (simp add: unat_of_nat)

lemma unpack_body_tiny_all:
  "\<forall>n \<in> {0,1,2,3,4,5,6,7,8,9,10,11,12,13,14,15::nat}.
     unpack_body toStr ms u (of_nat (TINY_STRING + n) # buf) = utf8_decode buf n \<and>
     unpack_body toStr ms u (of_nat (TINY_LIST + n) # buf) = unpackList u n buf \<and>
     unpack_body toStr ms u (of_nat (TINY_MAP + n) # buf) = unpackMap toStr u n buf \<and>
     unpack_body toStr ms u (of_nat (TINY_STRUCT + n) # buf) = unpackStruct ms u n buf"
  by (simp add: unpack_body_def readUInt8_Cons marker_defs Let_def numeral_3_eq_3 [symmetric])

lemma unpack_body_tiny:
  assumes "n < 16"
  shows "unpack_body toStr ms u (of_nat (TINY_STRING + n) # buf) = utf8_decode buf n"
    and "unpack_body toStr ms u (of_nat (TINY_LIST + n) # buf) = unpackList u n buf"
    and "unpack_body toStr ms u (of_nat (TINY_MAP + n) # buf) = unpackMap toStr u n buf"
    and "unpack_body toStr ms u (of_nat (TINY_STRUCT + n) # buf) = unpackStruct ms u n buf"
  using unpack_body_tiny_all [of toStr ms u buf] nibble_cases [OF assms] by blast+

lemma readUIntN:
  "n < 256 \<Longrightarrow> readUInt8 (of_nat n # buf) = Return (n, buf)"
  "n < 65536 \<Longrightarrow> readUInt16 (be_bytes 2 n @ buf) = Return (n, buf)"
  "n < 4294967296 \<Longrightarrow> readUInt32 (be_bytes 4 n @ buf) = Return (n, buf)"
  by (simp_all add: readUInt8_Cons unat_byte readUInt16_def readUInt32_def readBytes_def
      be_nat_be_bytes)

lemma unpack_body_sized8:
  assumes "n < 256"
  shows "unpack_body toStr ms u (of_nat STRING_8 # of_nat n # buf) = utf8_decode buf n"
    and "unpack_body toStr ms u (of_nat LIST_8 # of_nat n # buf) = unpackList u n buf"
    and "unpack_body toStr ms u (of_nat MAP_8 # of_nat n # buf) = unpackMap toStr u n buf"
    and "unpack_body toStr ms u (of_nat STRUCT_8 # of_nat n # buf) = unpackStruct ms u n buf"
  using assms
  by (simp_all add: unpack_body_def readUInt8_Cons marker_defs Let_def unat_byte)

lemma unpack_body_sized16:
  assumes "n < 65536"
  shows "unpack_body toStr ms u (of_nat STRING_16 # be_bytes 2 n @ buf) = utf8_decode buf n"
    and "unpack_body toStr ms u (of_nat LIST_16 # be_bytes 2 n @ buf) = unpackList u n buf"
    and "unpack_body toStr ms u (of_nat MAP_16 # be_bytes 2 n @ buf) = unpackMap toStr u n buf"
    and "unpack_body toStr ms u (of_nat STRUCT_16 # be_bytes 2 n @ buf) = unpackStruct ms u n buf"
  using assms
  by (simp_all add: unpack_body_def readUInt8_Cons marker_defs Let_def readUIntN)

lemma unpack_body_sized32:
  assumes "n < 4294967296"
  shows "unpack_body toStr ms u (of_nat STRING_32 # be_bytes 4 n @ buf) = utf8_decode buf n"
    and "unpack_body toStr ms u (of_nat LIST_32 # be_bytes 4 n @ buf) = unpackList u n buf"
    and "unpack_body toStr ms u (of_nat MAP_32 # be_bytes 4 n @ buf) = unpackMap toStr u n buf"
  using assms
  by (simp_all add: unpack_body_def readUInt8_Cons marker_defs Let_def readUIntN)


lemma unpackValues_length:
  "unpackValues u n buffer = Return (vs, rest) \<Longrightarrow> length vs = n"
proof (induction n arbitrary: buffer vs rest)
  case 0
  then show ?case by simp
next
  case (Suc n)
  from Suc.prems obtain v b1 where u: "u buffer = Return (v, b1)"
    by (cases "u buffer") auto
  with Suc.prems obtain vs' b2 where r: "unpackValues u n b1 = Return (vs', b2)"
    by (cases "unpackValues u n b1") auto
  from Suc.prems u r have "vs = v # vs'" by simp
  with Suc.IH [OF r] show ?case by simp
qed

lemma unpackValues_concat:
  assumes "\<And>x rest. x \<in> set xs \<Longrightarrow> u (e x @ rest) = Return (g x, rest)"
  shows "unpackValues u (length xs) (concat (map e xs) @ rest) = Return (map g xs, rest)"
  using assms
proof (induction xs)
  case Nil
  show ?case by simp
next
  case (Cons x xs)
  have h: "u (e x @ concat (map e xs) @ rest) = Return (g x, concat (map e xs) @ rest)"
    by (rule Cons.prems) simp
  have t: "unpackValues u (length xs) (concat (map e xs) @ rest) = Return (map g xs, rest)"
    by (rule Cons.IH) (simp add: Cons.prems)
  show ?case by (simp add: h t)
qed

lemma unpackStruct_mapper:
  "ms (unat sig) = Some mapper \<Longrightarrow> unpackStruct ms u sz (sig # buffer) = mapper u buffer"
  by (simp add: unpackStruct_def readUInt8_Cons)

lemma unpackStruct_default:
  "ms (unat sig) = None \<Longrightarrow>
   unpackStruct ms u sz (sig # buffer) =
     bindR (unpackValues u sz buffer) (\<lambda>(vs, rest). Return (Structure sig vs, rest))"
  by (simp add: unpackStruct_def readUInt8_Cons)

lemma unpackStruct_default_fields:
  assumes n: "ms (unat sig) = None"
    and r: "unpackStruct ms u sz (sig # buffer) = Return (v, rest)"
  shows "signature v = sig \<and> length (val.fields v) = sz \<and>
         unpackValues u sz buffer = Return (val.fields v, rest)"
proof -
  from r n have "bindR (unpackValues u sz buffer) (\<lambda>(vs, rest). Return (Structure sig vs, rest))
      = Return (v, rest)"
    by (simp add: unpackStruct_default)
  then obtain vs where vs: "unpackValues u sz buffer = Return (vs, rest)" and v: "v = Structure sig vs"
    by (cases "unpackValues u sz buffer") auto
  from unpackValues_length [OF vs] vs v show ?thesis by simp
qed

lemma unpackValues_Suc_Return:
  "unpackValues u (Suc n) buffer = Return (vs, rest) \<longleftrightarrow>
   (\<exists>v b vs'. u buffer = Return (v, b) \<and> unpackValues u n b = Return (vs', rest) \<and> vs = v # vs')"
proof (cases "u buffer")
  case (Return r)
  obtain v b where r: "r = (v, b)" by (cases r)
  show ?thesis
    unfolding unpackValues.simps Return r
    by (cases "unpackValues u n b") auto
qed simp_all

lemma unpackValues_threads:
  "unpackValues u n buffer = Return (vs, rest) \<longleftrightarrow>
   (\<exists>bufs. length bufs = Suc n \<and> length vs = n \<and> bufs ! 0 = buffer \<and> bufs ! n = rest \<and>
      (\<forall>i<n. u (bufs ! i) = Return (vs ! i, bufs ! Suc i)))"
proof (induction n arbitrary: buffer vs)
  case 0
  show ?case
  proof
    assume "unpackValues u 0 buffer = Return (vs, rest)"
    then have "vs = []" "rest = buffer" by simp_all
    then have "length [buffer] = Suc 0 \<and> length vs = 0 \<and> [buffer] ! 0 = buffer \<and> [buffer] ! 0 = rest \<and>
      (\<forall>i<0. u ([buffer] ! i) = Return (vs ! i, [buffer] ! Suc i))" by simp
    then show "\<exists>bufs. length bufs = Suc 0 \<and> length vs = 0 \<and> bufs ! 0 = buffer \<and> bufs ! 0 = rest \<and>
      (\<forall>i<0. u (bufs ! i) = Return (vs ! i, bufs ! Suc i))" by (rule exI)
  next
    assume "\<exists>bufs. length bufs = Suc 0 \<and> length vs = 0 \<and> bufs ! 0 = buffer \<and> bufs ! 0 = rest \<and>
      (\<forall>i<0. u (bufs ! i) = Return (vs ! i, bufs ! Suc i))"
    then show "unpackValues u 0 buffer = Return (vs, rest)" by auto
  qed
next
  case (Suc n)
  show ?case
  proof
    assume "unpackValues u (Suc n) buffer = Return (vs, rest)"
    then obtain v b vs' where h: "u buffer = Return (v, b)"
      and t: "unpackValues u n b = Return (vs', rest)" and vs: "vs = v # vs'"
      unfolding unpackValues_Suc_Return by blast
    from t obtain bufs where b: "length bufs = Suc n" "length vs' = n" "bufs ! 0 = b" "bufs ! n = rest"
      "\<forall>i<n. u (bufs ! i) = Return (vs' ! i, bufs ! Suc i)"
      unfolding Suc.IH by blast
    have "\<forall>i<Suc n. u ((buffer # bufs) ! i) = Return (vs ! i, (buffer # bufs) ! Suc i)"
    proof (intro allI impI)
      fix i assume i: "i < Suc n"
      show "u ((buffer # bufs) ! i) = Return (vs ! i, (buffer # bufs) ! Suc i)"
      proof (cases i)
        case 0
        then show ?thesis using h b(3) vs by simp
      next
        case (Suc j)
        with i have "j < n" by simp
        with b(5) Suc vs show ?thesis by simp
      qed
    qed
    with b vs have "length (buffer # bufs) = Suc (Suc n) \<and> length vs = Suc n \<and>
        (buffer # bufs) ! 0 = buffer \<and> (buffer # bufs) ! Suc n = rest \<and>
        (\<forall>i<Suc n. u ((buffer # bufs) ! i) = Return (vs ! i, (buffer # bufs) ! Suc i))"
      by simp
    then show "\<exists>bufs. length bufs = Suc (Suc n) \<and> length vs = Suc n \<and> bufs ! 0 = buffer \<and>
        bufs ! Suc n = rest \<and> (\<forall>i<Suc n. u (bufs ! i) = Return (vs ! i, bufs ! Suc i))"
      by (rule exI)
  next
    assume "\<exists>bufs. length bufs = Suc (Suc n) \<and> length vs = Suc n \<and> bufs ! 0 = buffer \<and>
        bufs ! Suc n = rest \<and> (\<forall>i<Suc n. u (bufs ! i) = Return (vs ! i, bufs ! Suc i))"
    then obtain bufs where b: "length bufs = Suc (Suc n)" "length vs = Suc n" "bufs ! 0 = buffer"
      "bufs ! Suc n = rest" "\<forall>i<Suc n. u (bufs ! i) = Return (vs ! i, bufs ! Suc i)"
      by blast
    from b(1) obtain b0 bufs' where bufs: "bufs = b0 # bufs'" by (cases bufs) auto
    from b(2) obtain v vs' where vs: "vs = v # vs'" by (cases vs) auto
    from b(3) bufs have b0: "b0 = buffer" by simp
    from b(5) have "u (bufs ! 0) = Return (vs ! 0, bufs ! Suc 0)" by blast
    then have h: "u buffer = Return (v, bufs' ! 0)" using bufs vs b0 by simp
    have "\<forall>i<n. u (bufs' ! i) = Return (vs' ! i, bufs' ! Suc i)"
    proof (intro allI impI)
      fix i assume "i < n"
      then have "Suc i < Suc n" by simp
      with b(5) have "u (bufs ! Suc i) = Return (vs ! Suc i, bufs ! Suc (Suc i))" by blast
      then show "u (bufs' ! i) = Return (vs' ! i, bufs' ! Suc i)" using bufs vs by simp
    qed
    with b bufs vs have "length bufs' = Suc n \<and> length vs' = n \<and> bufs' ! 0 = bufs' ! 0 \<and>
        bufs' ! n = rest \<and> (\<forall>i<n. u (bufs' ! i) = Return (vs' ! i, bufs' ! Suc i))"
      by simp
    then have "\<exists>bufs. length bufs = Suc n \<and> length vs' = n \<and> bufs ! 0 = bufs' ! 0 \<and>
        bufs ! n = rest \<and> (\<forall>i<n. u (bufs ! i) = Return (vs' ! i, bufs ! Suc i))"
      by (rule exI)
    then have "unpackValues u n (bufs' ! 0) = Return (vs', rest)"
      unfolding Suc.IH .
    with h vs show "unpackValues u (Suc n) buffer = Return (vs, rest)"
      unfolding unpackValues_Suc_Return by blast
  qed
qed

lemma unpackStruct_default_threads:
  assumes "ms (unat sig) = None"
  shows "unpackStruct ms u sz (sig # buffer) = Return (v, rest) \<longleftrightarrow>
    (\<exists>vs bufs. v = Structure sig vs \<and> length vs = sz \<and> length bufs = Suc sz \<and>
       bufs ! 0 = buffer \<and> bufs ! sz = rest \<and>
       (\<forall>i < sz. u (bufs ! i) = Return (vs ! i, bufs ! Suc i)))"
proof -
  have "unpackStruct ms u sz (sig # buffer) = Return (v, rest) \<longleftrightarrow>
      (\<exists>vs. unpackValues u sz buffer = Return (vs, rest) \<and> v = Structure sig vs)"
    using assms by (cases "unpackValues u sz buffer") (auto simp add: unpackStruct_default)
  then show ?thesis unfolding unpackValues_threads by blast
qed

lemma unpackStruct_default_concat:
  assumes "ms (unat sig) = None"
    and "\<forall>x \<in> set xs. \<forall>r. u (e x @ r) = Return (g x, r)"
  shows "unpackStruct ms u (length xs) (sig # concat (map e xs) @ rest)
           = Return (Structure sig (map g xs), rest)"
proof -
  have "unpackValues u (length xs) (concat (map e xs) @ rest) = Return (map g xs, rest)"
    by (rule unpackValues_concat) (use assms(2) in blast)
  then show ?thesis using assms(1) by (simp add: unpackStruct_default)
qed

text \<open>
  C6. \<open>unpackStruct\<close> reads the signature byte. If a mapper is registered for it, the
  result is what the mapper returns, whatever that is. If none is registered, the result
  is what the loop over the fields gives, wrapped: a returned value is a Structure with
  the signature read and with the values that \<open>size\<close> successive calls of \<open>unpack\<close>
  returned, in order, as its fields. Without reference to the loop: \<open>unpackStruct\<close>
  returns \<open>v\<close> and leaves \<open>rest\<close> exactly when there are buffers \<open>bufs ! 0\<close>, ...,
  \<open>bufs ! size\<close>, from the buffer after the signature to \<open>rest\<close>, and \<open>size\<close> values, such
  that \<open>unpack\<close> on \<open>bufs ! i\<close> returns the \<open>i\<close>-th value and leaves \<open>bufs ! (i + 1)\<close>,
  and \<open>v\<close> is the Structure of the signature and these values; so on the concatenation
  of encodings that \<open>unpack\<close> decodes one by one the fields are the decoded values, all
  of them, in order. \<open>unpack\<close> reaches \<open>unpackStruct\<close> with the size of the header for
  each of the three struct markers.
\<close>

theorem mapper_dispatch:
  "(ms (unat sig) = Some mapper \<longrightarrow> unpackStruct ms u sz (sig # buffer) = mapper u buffer) \<and>
   (ms (unat sig) = None \<longrightarrow>
      unpackStruct ms u sz (sig # buffer) =
        bindR (unpackValues u sz buffer) (\<lambda>(vs, rest). Return (Structure sig vs, rest)) \<and>
      (\<forall>v rest. unpackStruct ms u sz (sig # buffer) = Return (v, rest) \<longrightarrow>
         signature v = sig \<and> length (val.fields v) = sz \<and>
         unpackValues u sz buffer = Return (val.fields v, rest)) \<and>
      (\<forall>v rest. unpackStruct ms u sz (sig # buffer) = Return (v, rest) \<longleftrightarrow>
         (\<exists>vs bufs. v = Structure sig vs \<and> length vs = sz \<and> length bufs = Suc sz \<and>
            bufs ! 0 = buffer \<and> bufs ! sz = rest \<and>
            (\<forall>i < sz. u (bufs ! i) = Return (vs ! i, bufs ! Suc i)))) \<and>
      (\<forall>xs e g rest. (\<forall>x \<in> set xs. \<forall>r. u (e x @ r) = Return (g x, r)) \<longrightarrow>
         unpackStruct ms u (length xs) (sig # concat (map e xs) @ rest)
           = Return (Structure sig (map g xs), rest :: buffer))) \<and>
   (sz < 16 \<longrightarrow>
      unpack toStr ms (Suc depth) (of_nat (TINY_STRUCT + sz) # sig # buffer) =
        unpackStruct ms (unpack toStr ms depth) sz (sig # buffer)) \<and>
   (sz < 256 \<longrightarrow>
      unpack toStr ms (Suc depth) (of_nat STRUCT_8 # of_nat sz # sig # buffer) =
        unpackStruct ms (unpack toStr ms depth) sz (sig # buffer)) \<and>
   (sz < 65536 \<longrightarrow>
      unpack toStr ms (Suc depth) (of_nat STRUCT_16 # be_bytes 2 sz @ sig # buffer) =
        unpackStruct ms (unpack toStr ms depth) sz (sig # buffer))"
proof -
  have a: "ms (unat sig) = Some mapper \<longrightarrow> unpackStruct ms u sz (sig # buffer) = mapper u buffer"
    using unpackStruct_mapper [of ms sig mapper u sz buffer] by blast
  have b: "ms (unat sig) = None \<longrightarrow>
      unpackStruct ms u sz (sig # buffer) =
        bindR (unpackValues u sz buffer) (\<lambda>(vs, rest). Return (Structure sig vs, rest)) \<and>
      (\<forall>v rest. unpackStruct ms u sz (sig # buffer) = Return (v, rest) \<longrightarrow>
         signature v = sig \<and> length (val.fields v) = sz \<and>
         unpackValues u sz buffer = Return (val.fields v, rest)) \<and>
      (\<forall>v rest. unpackStruct ms u sz (sig # buffer) = Return (v, rest) \<longleftrightarrow>
         (\<exists>vs bufs. v = Structure sig vs \<and> length vs = sz \<and> length bufs = Suc sz \<and>
            bufs ! 0 = buffer \<and> bufs ! sz = rest \<and>
            (\<forall>i < sz. u (bufs ! i) = Return (vs ! i, bufs ! Suc i)))) \<and>
      (\<forall>xs e g rest. (\<forall>x \<in> set xs. \<forall>r. u (e x @ r) = Return (g x, r)) \<longrightarrow>
         unpackStruct ms u (length xs) (sig # concat (map e xs) @ rest)
           = Return (Structure sig (map g xs), rest :: buffer))"
  proof
    assume n: "ms (unat sig) = None"
    show "unpackStruct ms u sz (sig # buffer) =
        bindR (unpackValues u sz buffer) (\<lambda>(vs, rest). Return (Structure sig vs, rest)) \<and>
      (\<forall>v rest. unpackStruct ms u sz (sig # buffer) = Return (v, rest) \<longrightarrow>
         signature v = sig \<and> length (val.fields v) = sz \<and>
         unpackValues u sz buffer = Return (val.fields v, rest)) \<and>
      (\<forall>v rest. unpackStruct ms u sz (sig # buffer) = Return (v, rest) \<longleftrightarrow>
         (\<exists>vs bufs. v = Structure sig vs \<and> length vs = sz \<and> length bufs = Suc sz \<and>
            bufs ! 0 = buffer \<and> bufs ! sz = rest \<and>
            (\<forall>i < sz. u (bufs ! i) = Return (vs ! i, bufs ! Suc i)))) \<and>
      (\<forall>xs e g rest. (\<forall>x \<in> set xs. \<forall>r. u (e x @ r) = Return (g x, r)) \<longrightarrow>
         unpackStruct ms u (length xs) (sig # concat (map e xs) @ rest)
           = Return (Structure sig (map g xs), rest :: buffer))"
    proof -
      have p1: "unpackStruct ms u sz (sig # buffer) =
        bindR (unpackValues u sz buffer) (\<lambda>(vs, rest). Return (Structure sig vs, rest))"
        using n by (simp add: unpackStruct_default)
      have p2: "\<forall>v rest. unpackStruct ms u sz (sig # buffer) = Return (v, rest) \<longrightarrow>
         signature v = sig \<and> length (val.fields v) = sz \<and>
         unpackValues u sz buffer = Return (val.fields v, rest)"
        using unpackStruct_default_fields [where ms = ms and sig = sig, OF n] by blast
      have p3: "\<forall>v rest. unpackStruct ms u sz (sig # buffer) = Return (v, rest) \<longleftrightarrow>
         (\<exists>vs bufs. v = Structure sig vs \<and> length vs = sz \<and> length bufs = Suc sz \<and>
            bufs ! 0 = buffer \<and> bufs ! sz = rest \<and>
            (\<forall>i < sz. u (bufs ! i) = Return (vs ! i, bufs ! Suc i)))"
        using unpackStruct_default_threads [where ms = ms and sig = sig, OF n] by blast
      have p4: "\<forall>xs e g rest. (\<forall>x \<in> set xs. \<forall>r. u (e x @ r) = Return (g x, r)) \<longrightarrow>
         unpackStruct ms u (length xs) (sig # concat (map e xs) @ rest)
           = Return (Structure sig (map g xs), rest :: buffer)"
        using unpackStruct_default_concat [where ms = ms and sig = sig, OF n] by blast
      from p1 p2 p3 p4 show ?thesis by (intro conjI)
    qed
  qed
  have c: "sz < 16 \<longrightarrow>
      unpack toStr ms (Suc depth) (of_nat (TINY_STRUCT + sz) # sig # buffer) =
        unpackStruct ms (unpack toStr ms depth) sz (sig # buffer)"
    using unpack_body_tiny(4) [of sz toStr ms "unpack toStr ms depth" "sig # buffer"]
    unfolding unpack.simps by blast
  have d: "sz < 256 \<longrightarrow>
      unpack toStr ms (Suc depth) (of_nat STRUCT_8 # of_nat sz # sig # buffer) =
        unpackStruct ms (unpack toStr ms depth) sz (sig # buffer)"
    using unpack_body_sized8(4) [of sz toStr ms "unpack toStr ms depth" "sig # buffer"]
    unfolding unpack.simps by blast
  have e: "sz < 65536 \<longrightarrow>
      unpack toStr ms (Suc depth) (of_nat STRUCT_16 # be_bytes 2 sz @ sig # buffer) =
        unpackStruct ms (unpack toStr ms depth) sz (sig # buffer)"
    using unpack_body_sized16(4) [of sz toStr ms "unpack toStr ms depth" "sig # buffer"]
    unfolding unpack.simps by blast
  from a b c d e show ?thesis by (intro conjI)
qed

text \<open>
  \<open>B2 4E 01 02\<close>: with a mapper for \<open>4E\<close> that reads two values and returns them as a
  list in reverse, the result is that list; with no mapper it is the Structure \<open>4E\<close> of
  the two fields 1 and 2.
\<close>

theorem mapper_dispatch_witness:
  "unpack (\<lambda>v. None)
      (Map.empty (0x4E \<mapsto> (\<lambda>u b. bindR (u b) (\<lambda>(v, b'). bindR (u b') (\<lambda>(w, b''). Return (Array [w, v], b''))))))
      (Suc (Suc 0)) [0xB2, 0x4E, 0x01, 0x02]
     = Return (Array [Integer 2 0, Integer 1 0], []) \<and>
   unpack (\<lambda>v. None) Map.empty (Suc (Suc 0)) [0xB2, 0x4E, 0x01, 0x02]
     = Return (Structure 0x4E [Integer 1 0, Integer 2 0], [])"
proof -
  let ?toStr = "\<lambda>v::val. None :: jsstring option"
  let ?mapper = "(\<lambda>u b. bindR (u b) (\<lambda>(v, b'). bindR (u b') (\<lambda>(w, b''). Return (Array [w, v], b'')))) :: mapper"
  let ?ms = "Map.empty (0x4E \<mapsto> ?mapper) :: nat \<Rightarrow> mapper option"
  have one: "unpack ?toStr ms (Suc 0) (0x01 # r) = Return (Integer 1 0, r)" for ms r
    by (simp add: unpack_body_def readUInt8_Cons marker_defs int_Integer_def)
  have two: "unpack ?toStr ms (Suc 0) (0x02 # r) = Return (Integer 2 0, r)" for ms r
    by (simp add: unpack_body_def readUInt8_Cons marker_defs int_Integer_def)
  note registered = mapper_dispatch [of ?ms "0x4E" ?mapper "unpack ?toStr ?ms (Suc 0)" "Suc (Suc 0)"
      "[0x01, 0x02]" ?toStr "Suc 0"]
  note absent = mapper_dispatch [of Map.empty "0x4E" ?mapper "unpack ?toStr Map.empty (Suc 0)"
      "Suc (Suc 0)" "[0x01, 0x02]" ?toStr "Suc 0"]
  have m: "of_nat (TINY_STRUCT + Suc (Suc 0)) = (0xB2 :: byte)" by (simp add: TINY_STRUCT_def)
  have k: "?ms (unat (0x4E :: byte)) = Some ?mapper" by simp
  have "unpack ?toStr ?ms (Suc (Suc 0)) [0xB2, 0x4E, 0x01, 0x02]
      = unpackStruct ?ms (unpack ?toStr ?ms (Suc 0)) (Suc (Suc 0)) [0x4E, 0x01, 0x02]"
    using registered [THEN conjunct2, THEN conjunct2, THEN conjunct1] unfolding m by simp
  also have "\<dots> = ?mapper (unpack ?toStr ?ms (Suc 0)) [0x01, 0x02]"
    using registered [THEN conjunct1] k by blast
  also have "\<dots> = Return (Array [Integer 2 0, Integer 1 0], [])"
    by (simp add: one two del: unpack.simps)
  finally have first: "unpack ?toStr ?ms (Suc (Suc 0)) [0xB2, 0x4E, 0x01, 0x02]
      = Return (Array [Integer 2 0, Integer 1 0], [])" .
  let ?u = "unpack ?toStr Map.empty (Suc 0)"
  let ?g = "\<lambda>x :: byte. if x = 0x01 then Integer 1 0 else Integer 2 0"
  have el: "\<forall>x \<in> set [0x01, 0x02 :: byte]. \<forall>r. ?u ((\<lambda>x. [x]) x @ r) = Return (?g x, r)"
    using one [of Map.empty] two [of Map.empty] by simp
  have n: "Map.empty (unat (0x4E :: byte)) = (None :: mapper option)" by simp
  have "unpack ?toStr Map.empty (Suc (Suc 0)) [0xB2, 0x4E, 0x01, 0x02]
      = unpackStruct Map.empty ?u (Suc (Suc 0)) [0x4E, 0x01, 0x02]"
    using absent [THEN conjunct2, THEN conjunct2, THEN conjunct1] unfolding m by simp
  also have "\<dots> = unpackStruct Map.empty ?u (length [0x01, 0x02 :: byte])
                        (0x4E # concat (map (\<lambda>x. [x]) [0x01, 0x02]) @ [])"
    by simp
  also have "\<dots> = Return (Structure 0x4E (map ?g [0x01, 0x02]), [])"
    using absent [THEN conjunct2, THEN conjunct1, THEN mp, OF n, THEN conjunct2, THEN conjunct2,
        THEN conjunct2, THEN spec, THEN spec, THEN spec, THEN spec, THEN mp, OF el] .
  also have "\<dots> = Return (Structure 0x4E [Integer 1 0, Integer 2 0], [])"
    by simp
  finally have second: "unpack ?toStr Map.empty (Suc (Suc 0)) [0xB2, 0x4E, 0x01, 0x02]
      = Return (Structure 0x4E [Integer 1 0, Integer 2 0], [])" .
  from first second show ?thesis by (rule conjI)
qed

subsection \<open>Maps with repeated keys\<close>

lemma unpackPairs_length:
  "unpackPairs u n buffer = Return (es, rest) \<Longrightarrow> length es = n"
proof (induction n arbitrary: buffer es rest)
  case 0
  then show ?case by simp
next
  case (Suc n)
  from Suc.prems obtain k b1 where k: "u buffer = Return (k, b1)"
    by (cases "u buffer") auto
  with Suc.prems obtain v b2 where v: "u b1 = Return (v, b2)"
    by (cases "u b1") auto
  with Suc.prems k obtain es' b3 where r: "unpackPairs u n b2 = Return (es', b3)"
    by (cases "unpackPairs u n b2") auto
  from Suc.prems k v r have "es = (k, v) # es'" by simp
  with Suc.IH [OF r] show ?case by simp
qed

lemma unpackEntries_pairs:
  assumes "unpackPairs u n buffer = Return (es, rest)"
    and "map (\<lambda>(key, v). propertyKey toStr key) es = map Some ks"
    and "proto_key \<notin> set ks"
  shows "unpackEntries toStr u n buffer obj =
     Return (Object (foldl (\<lambda>obj (key, v). AList.update key v obj) obj
                       (zip ks (map snd es))), rest)"
  using assms
proof (induction n arbitrary: buffer es ks obj)
  case 0
  then show ?case by simp
next
  case (Suc n)
  from Suc.prems(1) obtain k b1 where k: "u buffer = Return (k, b1)"
    by (cases "u buffer") auto
  with Suc.prems(1) obtain v b2 where v: "u b1 = Return (v, b2)"
    by (cases "u b1") auto
  with Suc.prems(1) k obtain es' where r: "unpackPairs u n b2 = Return (es', rest)"
    and es: "es = (k, v) # es'"
    by (cases "unpackPairs u n b2") auto
  from Suc.prems(2) es obtain k' ks' where ks: "ks = k' # ks'"
    and pk: "propertyKey toStr k = Some k'"
    and m: "map (\<lambda>(key, v). propertyKey toStr key) es' = map Some ks'"
    by (cases ks) auto
  from Suc.prems(3) ks have np: "k' \<noteq> proto_key" and p: "proto_key \<notin> set ks'"
    by auto
  from np have a: "assign obj k' v = Some (AList.update k' v obj)"
    by (simp add: assign_def)
  show ?case
    using k v es ks pk a Suc.IH [OF r m p, of "AList.update k' v obj"] by simp
qed

lemma map_of_foldl_update:
  "map_of (foldl (\<lambda>obj (key, v). AList.update key v obj) obj kvs) = map_of obj ++ map_of (rev kvs)"
proof (induction kvs arbitrary: obj)
  case Nil
  show ?case by simp
next
  case (Cons kv kvs)
  obtain k v where kv: "kv = (k, v)" by (cases kv)
  show ?case
    unfolding kv by (simp add: Cons.IH update_conv' map_add_upd_left fun_eq_iff map_add_def split: option.splits)
qed

lemma distinct_foldl_update:
  "distinct (map fst obj) \<Longrightarrow>
   distinct (map fst (foldl (\<lambda>obj (key, v). AList.update key v obj) obj kvs))"
  by (induction kvs arbitrary: obj) (auto simp: distinct_update)

lemma length_foldl_update:
  "length (foldl (\<lambda>obj (key, v). AList.update key v obj) obj kvs) \<le> length obj + length kvs"
proof (induction kvs arbitrary: obj)
  case Nil
  show ?case by simp
next
  case (Cons kv kvs)
  obtain k v where kv: "kv = (k, v)" by (cases kv)
  have "length (AList.update k v obj) \<le> Suc (length obj)"
    by (induction obj) auto
  with Cons.IH [of "AList.update k v obj"] show ?case unfolding kv by simp
qed

lemma unpackMap_last_wins:
  assumes "unpackPairs u sz buffer = Return (es, rest)"
    and "map (\<lambda>(key, v). propertyKey toStr key) es = map Some ks"
    and "proto_key \<notin> set ks"
  shows "\<exists>obj. unpackMap toStr u sz buffer = Return (Object obj, rest) \<and>
           map_of obj = map_of (rev (zip ks (map snd es))) \<and>
           distinct (map fst obj) \<and> length obj \<le> sz"
proof -
  let ?kvs = "zip ks (map snd es)"
  let ?obj = "foldl (\<lambda>obj (key, v). AList.update key v obj) [] ?kvs"
  have "unpackMap toStr u sz buffer = Return (Object ?obj, rest)"
    unfolding unpackMap_def by (rule unpackEntries_pairs [OF assms])
  moreover have "map_of ?obj = map_of (rev ?kvs)"
    by (simp add: map_of_foldl_update)
  moreover have "distinct (map fst ?obj)"
    by (rule distinct_foldl_update) simp
  moreover have "length ?obj \<le> sz"
  proof -
    have "length ?obj \<le> length ?kvs" using length_foldl_update [of "[]" ?kvs] by simp
    also have "\<dots> \<le> length es" by simp
    also have "\<dots> = sz" by (rule unpackPairs_length [OF assms(1)])
    finally show ?thesis .
  qed
  ultimately show ?thesis by blast
qed

lemma unpackValues_numeral:
  "unpackValues u (numeral k) buffer =
    bindR (u buffer) (\<lambda>(v, buffer).
      bindR (unpackValues u (pred_numeral k) buffer) (\<lambda>(vs, buffer).
        Return (v # vs, buffer)))"
  by (simp add: numeral_eq_Suc)

lemma unpackEntries_numeral:
  "unpackEntries toStr u (numeral k) buffer obj =
    bindR (u buffer) (\<lambda>(key, buffer).
      bindR (u buffer) (\<lambda>(v, buffer).
        case propertyKey toStr key of
          None \<Rightarrow> Raise TypeError
        | Some k' \<Rightarrow>
            (case assign obj k' v of
               Some obj' \<Rightarrow> unpackEntries toStr u (pred_numeral k) buffer obj'
             | None \<Rightarrow> Unmodelled)))"
  by (simp add: numeral_eq_Suc)

lemma unpackPairs_numeral:
  "unpackPairs u (numeral k) buffer =
    bindR (u buffer) (\<lambda>(key, buffer).
      bindR (u buffer) (\<lambda>(v, buffer).
        bindR (unpackPairs u (pred_numeral k) buffer) (\<lambda>(es, buffer).
          Return ((key, v) # es, buffer))))"
  by (simp add: numeral_eq_Suc)

lemmas eval_unpack = unpackValues_numeral unpackEntries_numeral unpackPairs_numeral unpack_body_def readUInt8_Cons marker_defs Let_def unpackMap_def
  unpackList_def unpackStruct_def utf8_decode_def readBytes_def assign_def propertyKey_def
  proto_key_def int_Integer_def

text \<open>
  C10 (as amended). When the entries of an encoded map decode, every key has a property
  key (a string is its own; the conversion of another value may throw) and no property
  key is \<open>__proto__\<close>, \<open>unpackMap\<close> returns a map, also when a key occurs more than once:
  every key is bound to the value of its last occurrence in encoded order, the keys of
  the result are distinct, and the result has at most as many entries as the header
  declares.
\<close>

theorem duplicate_keys_last_wins:
  assumes "unpackPairs u sz buffer = Return (es, rest)"
    and "map (\<lambda>(key, v). propertyKey toStr key) es = map Some ks"
    and "proto_key \<notin> set ks"
  shows "\<exists>obj. unpackMap toStr u sz buffer = Return (Object obj, rest) \<and>
           map_of obj = map_of (rev (zip ks (map snd es))) \<and>
           distinct (map fst obj) \<and> length obj \<le> sz"
  using assms by (rule unpackMap_last_wins)

text \<open>
  The map \<open>A3 81 61 01 81 62 03 81 61 02\<close>, with the key \<open>a\<close> twice, decodes to
  \<open>{"a": 2, "b": 3}\<close>: two entries for a declared count of three.
\<close>

theorem duplicate_keys_last_wins_witness:
  "(\<exists>obj. unpackMap (\<lambda>v. None) (unpack (\<lambda>v. None) Map.empty (Suc 0)) 3
            [0x81, 0x61, 0x01, 0x81, 0x62, 0x03, 0x81, 0x61, 0x02] = Return (Object obj, []) \<and>
          map_of obj = map_of [([0x61], Integer 2 0), ([0x62], Integer 3 0), ([0x61], Integer 1 0)] \<and>
          distinct (map fst obj) \<and> length obj \<le> 3) \<and>
   unpack (\<lambda>v. None) Map.empty (Suc (Suc 0))
        [0xA3, 0x81, 0x61, 0x01, 0x81, 0x62, 0x03, 0x81, 0x61, 0x02]
     = Return (Object [([0x61], Integer 2 0), ([0x62], Integer 3 0)], [])"
proof -
  let ?u = "unpack (\<lambda>v. None) Map.empty (Suc 0)"
  let ?es = "[(String [0x61], Integer 1 0), (String [0x62], Integer 3 0), (String [0x61], Integer 2 0)]"
  have p: "unpackPairs ?u 3 [0x81, 0x61, 0x01, 0x81, 0x62, 0x03, 0x81, 0x61, 0x02] = Return (?es, [])"
    by (simp add: eval_unpack)
  have q: "map (\<lambda>(key, v). propertyKey (\<lambda>v. None) key) ?es = map Some [[0x61], [0x62], [0x61]]"
    by (simp add: propertyKey_def)
  have n: "proto_key \<notin> set [[0x61], [0x62], [0x61 :: byte]]"
    by (simp add: proto_key_def)
  have "\<exists>obj. unpackMap (\<lambda>v. None) ?u 3 [0x81, 0x61, 0x01, 0x81, 0x62, 0x03, 0x81, 0x61, 0x02]
            = Return (Object obj, []) \<and>
          map_of obj = map_of [([0x61], Integer 2 0), ([0x62], Integer 3 0), ([0x61], Integer 1 0)] \<and>
          distinct (map fst obj) \<and> length obj \<le> 3"
    using duplicate_keys_last_wins [OF p q n] by simp
  moreover have "unpack (\<lambda>v. None) Map.empty (Suc (Suc 0))
        [0xA3, 0x81, 0x61, 0x01, 0x81, 0x62, 0x03, 0x81, 0x61, 0x02]
     = Return (Object [([0x61], Integer 2 0), ([0x62], Integer 3 0)], [])"
    by (simp add: eval_unpack)
  ultimately show ?thesis by (rule conjI)
qed

text \<open>
  The map with the entries \<open>"__proto__": "x"\<close> and \<open>"__proto__": "y"\<close> decodes to the empty
  map: the key that occurs twice is not bound to the value of its last occurrence.
\<close>

theorem duplicate_proto_key_counterexample:
  "unpack (\<lambda>v. None) Map.empty (Suc (Suc 0))
     [0xA2, 0x89, 0x5F, 0x5F, 0x70, 0x72, 0x6F, 0x74, 0x6F, 0x5F, 0x5F, 0x81, 0x78,
            0x89, 0x5F, 0x5F, 0x70, 0x72, 0x6F, 0x74, 0x6F, 0x5F, 0x5F, 0x81, 0x79]
     = Return (Object [], [])"
  by (simp add: eval_unpack)

subsection \<open>What the Packer writes for a value in scope\<close>

lemma run_map_emit:
  "run (map (\<lambda>x. emit (f x)) xs) s = emit (concat (map f xs)) s"
proof (induction xs arbitrary: s)
  case Nil
  show ?case by (simp add: emit_def)
next
  case (Cons x xs)
  have e: "emit (f x) s = Done (s\<lparr>written := written s @ f x\<rparr>)"
    by (simp add: emit_def)
  have "run (map (\<lambda>x. emit (f x)) (x # xs)) s
      = run (map (\<lambda>x. emit (f x)) xs) (s\<lparr>written := written s @ f x\<rparr>)"
    by (simp only: list.map run.simps e outcome.case)
  also have "\<dots> = emit (concat (map f xs)) (s\<lparr>written := written s @ f x\<rparr>)"
    by (rule Cons.IH)
  also have "\<dots> = emit (concat (map f (x # xs))) s"
    by (simp add: emit_def)
  finally show ?case .
qed

lemma run_header_map_emit:
  assumes "h s = emit hdr s"
  shows "run (h # map (\<lambda>x. emit (f x)) xs) s = emit (hdr @ concat (map f xs)) s"
proof -
  from assms have e: "h s = Done (s\<lparr>written := written s @ hdr\<rparr>)"
    by (simp add: emit_def)
  have "run (h # map (\<lambda>x. emit (f x)) xs) s
      = run (map (\<lambda>x. emit (f x)) xs) (s\<lparr>written := written s @ hdr\<rparr>)"
    by (simp only: run.simps e outcome.case)
  also have "\<dots> = emit (concat (map f xs)) (s\<lparr>written := written s @ hdr\<rparr>)"
    by (rule run_map_emit)
  also have "\<dots> = emit (hdr @ concat (map f xs)) s"
    by (simp add: emit_def)
  finally show ?thesis .
qed

lemma collect_pure:
  assumes "\<And>x t. x \<in> set xs \<Longrightarrow> f x t = (t, g x)"
  shows "collect f xs s = (s, map g xs)"
  using assms by (induction xs arbitrary: s) simp_all

lemma packable_in_scope:
  "in_scope ms v \<Longrightarrow> packable oe v s = (s, emit (encode v))"
proof (induction v arbitrary: s)
  case Null
  show ?case by (simp add: writeUInt8_emit NULL_def)
next
  case Undefined
  then show ?case by simp
next
  case (Bool b)
  show ?case by (simp add: writeUInt8_emit TRUE_def FALSE_def)
next
  case (Number x)
  have "packFloat x = emit (0xC1 # be_bytes 8 (unat x))"
    by (rule ext) (simp add: packFloat_def writeUInt8_emit writeFloat64_def FLOAT_64_def emit_def)
  then show ?case by simp
next
  case (String x)
  then have "packString x oe = emit (encode (String x))"
    by (intro ext) (simp add: packString_emit)
  then show ?case by simp
next
  case (Integer lo hi)
  have "packInteger (Integer lo hi) = emit (encode (Integer lo hi))"
    by (rule ext) (simp add: packInteger_emits emit_def)
  then show ?case by simp
next
  case (Array xs)
  let ?g = "\<lambda>xi t. if xi = Undefined
                 then (case packable oe Null t of (t', thunk) \<Rightarrow> thunk t')
                 else (case packable oe xi t of (t', thunk) \<Rightarrow> thunk t')"
  let ?e = "\<lambda>x. if x = Undefined then [0xC0] else encode x"
  from Array.prems have len: "length xs < 4294967296"
    and el: "\<And>x. x \<in> set xs \<Longrightarrow> x = Undefined \<or> in_scope ms x"
    by (simp_all add: list_all_iff)
  have "?g x = emit (?e x)" if "x \<in> set xs" for x
  proof (cases "x = Undefined")
    case True
    then show ?thesis by (intro ext) (simp add: writeUInt8_emit NULL_def)
  next
    case False
    with el [OF that] have "in_scope ms x" by simp
    from Array.IH [OF that this] False show ?thesis by (intro ext) simp
  qed
  then have m: "map ?g xs = map (\<lambda>x. emit (?e x)) xs"
    by (intro map_cong) simp_all
  have "run (packListHeader (length xs) oe # map ?g xs) = emit (encode (Array xs))"
    unfolding m
    by (rule ext, rule trans [OF run_header_map_emit [OF packListHeader_emit [OF len]]]) simp
  then show ?case by simp
next
  case (Structure sig fs)
  from Structure.prems have len: "length fs < 256"
    and el: "\<And>f. f \<in> set fs \<Longrightarrow> in_scope ms f"
    by (simp_all add: list_all_iff)
  have c: "collect (\<lambda>f t. packable oe f t) fs s = (s, map (\<lambda>f. emit (encode f)) fs)"
    by (rule collect_pure) (simp add: Structure.IH el)
  have h: "packStructHeader (length fs) sig Absent t =
      emit (if length fs < 16 then [of_nat (TINY_STRUCT + length fs), sig]
            else [of_nat STRUCT_8, of_nat (length fs), sig]) t" for t
    using len by (simp add: packStructHeader_emit)
  have "packStruct sig (map (\<lambda>f. emit (encode f)) fs) Absent = emit (encode (Structure sig fs))"
    unfolding packStruct_def length_map
    by (rule ext, rule trans [OF run_header_map_emit [OF h]]) (use len in simp)
  then show ?case by (simp add: c)
next
  case (Object kvs)
  let ?p = "\<lambda>(key, v). v \<noteq> Undefined"
  let ?g = "\<lambda>(key, v) t. if v \<noteq> Undefined
              then run [packString key Absent,
                        (\<lambda>u. case packable oe v u of (u', thunk) \<Rightarrow> thunk u')] t
              else Done t"
  let ?e = "\<lambda>(key, v). size_header TINY_STRING STRING_8 STRING_16 STRING_32 (length key) @ key @ encode v"
  from Object.prems have len: "length (filter ?p kvs) < 4294967296"
    and el: "\<And>key v. (key, v) \<in> set kvs \<Longrightarrow> v \<noteq> Undefined \<Longrightarrow>
               length key < 4294967296 \<and> in_scope ms v"
    by (auto simp add: list_all_iff)
  have skip: "run (map ?g kvs) t = run (map ?g (filter ?p kvs)) t" for t
    by (rule run_map_filter) auto
  have "?g kv = emit (?e kv)" if "kv \<in> set (filter ?p kvs)" for kv
  proof -
    obtain key v where kv: "kv = (key, v)" by (cases kv)
    with that have mem: "(key, v) \<in> set kvs" and d: "v \<noteq> Undefined" by simp_all
    from el [OF mem d] have l: "length key < 4294967296" and sc: "in_scope ms v" by simp_all
    have "(key, v) \<in> set kvs \<and> v \<in> Basic_BNFs.snds (key, v)" using mem by simp
    then have ih: "packable oe v u = (u, emit (encode v))" for u
      using Object.IH sc by blast
    show ?thesis
      unfolding kv using d
      by (intro ext) (simp add: packString_emit [OF l] ih emit_def)
  qed
  then have m: "map ?g (filter ?p kvs) = map (\<lambda>kv. emit (?e kv)) (filter ?p kvs)"
    by (intro map_cong) simp_all
  have "run (packMapHeader (length (filter ?p kvs)) oe # map ?g kvs) t = emit (encode (Object kvs)) t" for t
  proof -
    have "run (packMapHeader (length (filter ?p kvs)) oe # map ?g kvs) t
        = run (packMapHeader (length (filter ?p kvs)) oe # map ?g (filter ?p kvs)) t"
      using skip by (simp split: outcome.splits)
    also have "\<dots> = emit (encode (Object kvs)) t"
      unfolding m
      by (rule trans [OF run_header_map_emit [OF packMapHeader_emit [OF len]]]) simp
    finally show ?thesis .
  qed
  then have "run (packMapHeader (length (filter ?p kvs)) oe # map ?g kvs) = emit (encode (Object kvs))"
    by (rule ext)
  then show ?case by simp
next
  case Function
  then show ?case by simp
qed

lemma pack_in_scope:
  "in_scope ms v \<Longrightarrow> pack oe v s = Done (s\<lparr>written := written s @ encode v\<rparr>)"
  by (simp add: pack_def packable_in_scope emit_def)

subsection \<open>What the Unpacker reads back\<close>

lemma unpack_body_Null: "unpack_body toStr ms u (0xC0 # rest) = Return (Null, rest)"
  by (simp add: unpack_body_def readUInt8_Cons marker_defs)

lemma unpack_body_Bool:
  "unpack_body toStr ms u ((if b then 0xC3 else 0xC2) # rest) = Return (Bool b, rest)"
  by (simp add: unpack_body_def readUInt8_Cons marker_defs)

lemma readFloat64_bytes:
  "readFloat64 (be_bytes 8 (unat (x :: 64 word)) @ rest) = Return (x, rest)"
proof -
  have "unat x < 256 ^ 8" using unsigned_less [of x, where ?'a = nat] by simp
  then have "be_nat (be_bytes 8 (unat x)) = unat x"
    by (simp add: be_nat_be_bytes)
  then show ?thesis by (simp add: readFloat64_def readBytes_def)
qed

lemma unpack_body_Number:
  "unpack_body toStr ms u (0xC1 # be_bytes 8 (unat x) @ rest) = Return (Number x, rest)"
  by (simp add: unpack_body_def readUInt8_Cons marker_defs readFloat64_bytes)

lemma utf8_decode_bytes: "utf8_decode (x @ rest) (length x) = Return (String x, rest)"
  by (simp add: utf8_decode_def readBytes_def)

lemma unpack_body_size_header:
  assumes "n < 4294967296"
  shows "unpack_body toStr ms u (size_header TINY_STRING STRING_8 STRING_16 STRING_32 n @ buf)
           = utf8_decode buf n"
    and "unpack_body toStr ms u (size_header TINY_LIST LIST_8 LIST_16 LIST_32 n @ buf)
           = unpackList u n buf"
    and "unpack_body toStr ms u (size_header TINY_MAP MAP_8 MAP_16 MAP_32 n @ buf)
           = unpackMap toStr u n buf"
  using assms
  by (simp_all add: size_header_def unpack_body_tiny unpack_body_sized8 unpack_body_sized16
      unpack_body_sized32 del: of_nat_add)

lemma unpack_body_String:
  "length x < 4294967296 \<Longrightarrow>
   unpack_body toStr ms u (encode (String x) @ rest) = Return (String x, rest)"
  by (simp add: unpack_body_size_header utf8_decode_bytes)

lemma mod_signed:
  assumes "- M \<le> v" "v < M"
  shows "v mod (2 * M) = (if v < 0 then v + 2 * M else (v::int))"
proof (cases "v < 0")
  case True
  have "v mod (2 * M) = (v + 2 * M) mod (2 * M)" by simp
  also have "\<dots> = v + 2 * M"
    using assms True by (intro mod_pos_pos_trivial) linarith+
  finally show ?thesis using True by simp
next
  case False
  then have "v mod (2 * M) = v"
    using assms by (intro mod_pos_pos_trivial) linarith+
  then show ?thesis using False by simp
qed

lemma to_signed_twos1: "- 128 \<le> v \<Longrightarrow> v < 128 \<Longrightarrow> to_signed 1 (twos 1 v) = v"
  using mod_signed [of 128 v] by (auto simp add: to_signed_def twos_def)

lemma to_signed_twos2: "- 32768 \<le> v \<Longrightarrow> v < 32768 \<Longrightarrow> to_signed 2 (twos 2 v) = v"
  using mod_signed [of 32768 v] by (auto simp add: to_signed_def twos_def)

lemma to_signed_twos4:
  "- 2147483648 \<le> v \<Longrightarrow> v < 2147483648 \<Longrightarrow> to_signed 4 (twos 4 v) = v"
  using mod_signed [of 2147483648 v] by (auto simp add: to_signed_def twos_def)

lemma twos_bound:
  "twos 1 v < 256" "twos 2 v < 65536" "twos 4 v < 4294967296"
  by (simp_all add: twos_def nat_less_iff)

lemma readInt8_twos:
  assumes "- 128 \<le> v" "v < 128"
  shows "readInt8 (be_bytes 1 (twos 1 v) @ rest) = Return (v, rest)"
proof -
  have "be_nat (be_bytes 1 (twos 1 v)) = twos 1 v"
    using twos_bound(1) [of v] by (simp only: be_nat_be_bytes) simp
  then show ?thesis
    by (simp add: readInt8_def readBytes_def to_signed_twos1 [OF assms] del: be_bytes.simps One_nat_def)
qed

lemma readInt16_twos:
  assumes "- 32768 \<le> v" "v < 32768"
  shows "readInt16 (be_bytes 2 (twos 2 v) @ rest) = Return (v, rest)"
proof -
  have "be_nat (be_bytes 2 (twos 2 v)) = twos 2 v"
    using twos_bound(2) [of v] by (simp only: be_nat_be_bytes) simp
  then show ?thesis
    by (simp add: readInt16_def readBytes_def to_signed_twos2 [OF assms] del: be_bytes.simps)
qed

lemma readInt32_twos:
  assumes "- 2147483648 \<le> v" "v < 2147483648"
  shows "readInt32 (be_bytes 4 (twos 4 v) @ rest) = Return (v, rest)"
proof -
  have "be_nat (be_bytes 4 (twos 4 v)) = twos 4 v"
    using twos_bound(3) [of v] by (simp only: be_nat_be_bytes) simp
  then show ?thesis
    by (simp add: readInt32_def readBytes_def to_signed_twos4 [OF assms] del: be_bytes.simps)
qed

lemma unpack_body_tiny_int_pos:
  assumes "m < 128"
  shows "unpack_body toStr ms u (of_nat m # rest) = Return (int_Integer (int m), rest)"
proof -
  have u: "unat (of_nat m :: byte) = m" using assms by (simp add: unat_byte)
  have c: "(m = 192) = False" "(m = 195) = False" "(m = 194) = False" "(m = 193) = False"
    "(0 \<le> m \<and> m < 128) = True"
    using assms by simp_all
  show ?thesis
    unfolding unpack_body_def readUInt8_Cons u marker_defs bindR.simps prod.case c if_False if_True
    by (rule refl)
qed

lemma unpack_body_tiny_int_neg:
  assumes "240 \<le> m" "m < 256"
  shows "unpack_body toStr ms u (of_nat m # rest) = Return (int_Integer (int m - 256), rest)"
proof -
  have u: "unat (of_nat m :: byte) = m" using assms by (simp add: unat_byte)
  have c: "(m = 192) = False" "(m = 195) = False" "(m = 194) = False" "(m = 193) = False"
    "(0 \<le> m \<and> m < 128) = False" "(240 \<le> m \<and> m < 256) = True"
    using assms by simp_all
  show ?thesis
    unfolding unpack_body_def readUInt8_Cons u marker_defs bindR.simps prod.case c if_False if_True
    by (rule refl)
qed

lemma unpack_body_INT:
  "unpack_body toStr ms u (0xC8 # buf) = bindR (readInt8 buf) (\<lambda>(b, buffer). Return (int_Integer b, buffer))"
  "unpack_body toStr ms u (0xC9 # buf) = bindR (readInt16 buf) (\<lambda>(b, buffer). Return (int_Integer b, buffer))"
  "unpack_body toStr ms u (0xCA # buf) = bindR (readInt32 buf) (\<lambda>(b, buffer). Return (int_Integer b, buffer))"
  "unpack_body toStr ms u (0xCB # buf) =
     bindR (readInt32 buf) (\<lambda>(high, buffer).
       bindR (readInt32 buffer) (\<lambda>(low, buffer). Return (new_Integer low high, buffer)))"
  by (simp_all add: unpack_body_def readUInt8_Cons marker_defs)

lemma int_Integer_toInt:
  assumes "- 2147483648 \<le> toInt (Integer lo hi)" "toInt (Integer lo hi) < 2147483648"
  shows "int_Integer (toInt (Integer lo hi)) = Integer lo hi"
proof -
  have s: "sint lo = toInt (Integer lo hi)" by (rule toInt_range(1) [OF assms])
  have h: "hi = (if sint lo < 0 then - 1 else 0)" by (rule toInt_range(2) [OF assms])
  have "word_of_int (sint lo) = lo" by simp
  then have l: "word_of_int (toInt (Integer lo hi)) = lo" unfolding s .
  show ?thesis
    unfolding int_Integer_def l using h unfolding s by simp
qed

lemma sint32_range: "- 2147483648 \<le> sint (w :: 32 word)" "sint (w :: 32 word) < 2147483648"
  using sint_ge [of w] sint_lt [of w] by simp_all

lemma unpack_body_Integer:
  "unpack_body toStr ms u (integer_tier (toInt (Integer lo hi)) @ rest) = Return (Integer lo hi, rest)"
proof -
  let ?v = "toInt (Integer lo hi)"
  consider (pos) "0 \<le> ?v" "?v < 128"
    | (neg) "- 16 \<le> ?v" "?v < 0"
    | (i8) "- 128 \<le> ?v" "?v < - 16"
    | (i16) "- 32768 \<le> ?v" "?v < 32768" "\<not> (- 128 \<le> ?v \<and> ?v < 128)"
    | (i32) "- 2147483648 \<le> ?v" "?v < 2147483648" "\<not> (- 32768 \<le> ?v \<and> ?v < 32768)"
    | (i64) "\<not> (- 2147483648 \<le> ?v \<and> ?v < 2147483648)"
    by linarith
  then show ?thesis
  proof cases
    case pos
    then have t: "integer_tier ?v = [of_nat (nat ?v)]"
      by (simp add: integer_tier_def twos_def)
    have r: "- 2147483648 \<le> ?v" "?v < 2147483648" using pos by linarith+
    have b: "nat ?v < 128" using pos by linarith
    have e: "int (nat ?v) = ?v" using pos by linarith
    have "unpack_body toStr ms u (of_nat (nat ?v) # rest)
        = Return (int_Integer (int (nat ?v)), rest)"
      by (rule unpack_body_tiny_int_pos [OF b])
    also have "\<dots> = Return (Integer lo hi, rest)"
      by (simp only: e int_Integer_toInt [OF r])
    finally show ?thesis unfolding t append_Cons append_Nil .
  next
    case neg
    have m: "?v mod 256 = ?v + 256" using mod_signed [of 128 ?v] neg by simp
    from neg have t: "integer_tier ?v = [of_nat (nat (?v + 256))]"
      by (simp add: integer_tier_def twos_def m)
    have r: "- 2147483648 \<le> ?v" "?v < 2147483648" using neg by linarith+
    have b: "240 \<le> nat (?v + 256)" "nat (?v + 256) < 256" using neg by linarith+
    have e: "int (nat (?v + 256)) - 256 = ?v" using neg by linarith
    have "unpack_body toStr ms u (of_nat (nat (?v + 256)) # rest)
        = Return (int_Integer (int (nat (?v + 256)) - 256), rest)"
      by (rule unpack_body_tiny_int_neg [OF b])
    also have "\<dots> = Return (Integer lo hi, rest)"
      by (simp only: e int_Integer_toInt [OF r])
    finally show ?thesis unfolding t append_Cons append_Nil .
  next
    case i8
    then have t: "integer_tier ?v = 0xC8 # be_bytes 1 (twos 1 ?v)"
      by (simp add: integer_tier_def del: be_bytes.simps One_nat_def)
    have r: "- 2147483648 \<le> ?v" "?v < 2147483648" using i8 by linarith+
    have rd: "readInt8 (be_bytes 1 (twos 1 ?v) @ rest) = Return (?v, rest)"
      by (rule readInt8_twos) (use i8 in linarith)+
    show ?thesis
      unfolding t append_Cons unpack_body_INT rd by (simp add: int_Integer_toInt [OF r])
  next
    case i16
    then have t: "integer_tier ?v = 0xC9 # be_bytes 2 (twos 2 ?v)"
      by (auto simp add: integer_tier_def simp del: be_bytes.simps)
    have r: "- 2147483648 \<le> ?v" "?v < 2147483648" using i16 by linarith+
    have rd: "readInt16 (be_bytes 2 (twos 2 ?v) @ rest) = Return (?v, rest)"
      by (rule readInt16_twos) (use i16 in linarith)+
    show ?thesis
      unfolding t append_Cons unpack_body_INT rd by (simp add: int_Integer_toInt [OF r])
  next
    case i32
    then have t: "integer_tier ?v = 0xCA # be_bytes 4 (twos 4 ?v)"
      by (auto simp add: integer_tier_def simp del: be_bytes.simps)
    have rd: "readInt32 (be_bytes 4 (twos 4 ?v) @ rest) = Return (?v, rest)"
      by (rule readInt32_twos) (use i32 in linarith)+
    show ?thesis
      unfolding t append_Cons unpack_body_INT rd
      by (simp add: int_Integer_toInt [OF i32(1,2)])
  next
    case i64
    then have t: "integer_tier ?v = 0xCB # be_bytes 8 (twos 8 ?v)"
      by (auto simp add: integer_tier_def simp del: be_bytes.simps)
    have e: "be_bytes 8 (twos 8 ?v) = be_bytes 4 (twos 4 (sint hi)) @ be_bytes 4 (twos 4 (sint lo))"
      unfolding twos_sint32 twos_toInt64
      by (rule be_bytes_8_split) (use unsigned_less [of lo, where ?'a = nat] in simp)
    have r1: "readInt32 (be_bytes 4 (twos 4 (sint hi)) @ be_bytes 4 (twos 4 (sint lo)) @ rest)
        = Return (sint hi, be_bytes 4 (twos 4 (sint lo)) @ rest)"
      by (rule readInt32_twos) (rule sint32_range)+
    have r2: "readInt32 (be_bytes 4 (twos 4 (sint lo)) @ rest) = Return (sint lo, rest)"
      by (rule readInt32_twos) (rule sint32_range)+
    show ?thesis
      unfolding t e append_Cons append_assoc unpack_body_INT r1 bindR.simps prod.case r2
      by (simp add: new_Integer_def)
  qed
qed

lemma update_new: "key \<notin> fst ` set obj \<Longrightarrow> AList.update key v obj = obj @ [(key, v)]"
  by (induction obj) auto

lemma unpackEntries_concat:
  assumes "\<And>key v rest. (key, v) \<in> set kvs \<Longrightarrow> u (ek key @ rest) = Return (String key, rest)"
    and "\<And>key v rest. (key, v) \<in> set kvs \<Longrightarrow> u (ev v @ rest) = Return (g v, rest)"
    and "distinct (map fst kvs)"
    and "\<And>key v. (key, v) \<in> set kvs \<Longrightarrow> key \<noteq> proto_key \<and> key \<notin> fst ` set obj"
  shows "unpackEntries toStr u (length kvs)
           (concat (map (\<lambda>(key, v). ek key @ ev v) kvs) @ rest) obj
         = Return (Object (obj @ map (\<lambda>(key, v). (key, g v)) kvs), rest)"
  using assms
proof (induction kvs arbitrary: obj)
  case Nil
  show ?case by simp
next
  case (Cons kv kvs)
  obtain key v where kv: "kv = (key, v)" by (cases kv)
  let ?tail = "concat (map (\<lambda>(key, v). ek key @ ev v) kvs) @ rest"
  have hk: "u (ek key @ ev v @ ?tail) = Return (String key, ev v @ ?tail)"
    by (rule Cons.prems(1) [of key v]) (simp add: kv)
  have hv: "u (ev v @ ?tail) = Return (g v, ?tail)"
    by (rule Cons.prems(2) [of key v]) (simp add: kv)
  have nk: "key \<noteq> proto_key" "key \<notin> fst ` set obj"
    using Cons.prems(4) [of key v] by (simp_all add: kv)
  have pk: "propertyKey toStr (String key) = Some key"
    by (simp add: propertyKey_def)
  have a: "assign obj key (g v) = Some (obj @ [(key, g v)])"
    using nk by (simp add: assign_def update_new)
  have d: "distinct (map fst kvs)" and kn: "key \<notin> fst ` set kvs"
    using Cons.prems(3) by (simp_all add: kv)
  have t: "unpackEntries toStr u (length kvs) ?tail (obj @ [(key, g v)])
      = Return (Object ((obj @ [(key, g v)]) @ map (\<lambda>(key, v). (key, g v)) kvs), rest)"
  proof (rule Cons.IH)
    show "u (ek k' @ r) = Return (String k', r)" if "(k', v') \<in> set kvs" for k' v' r
      using that by (intro Cons.prems(1) [of k' v']) simp
    show "u (ev v' @ r) = Return (g v', r)" if "(k', v') \<in> set kvs" for k' v' r
      using that by (intro Cons.prems(2) [of k' v']) simp
    show "distinct (map fst kvs)" by (rule d)
    show "k' \<noteq> proto_key \<and> k' \<notin> fst ` set (obj @ [(key, g v)])" if "(k', v') \<in> set kvs" for k' v'
    proof -
      from that have "k' \<in> fst ` set kvs" by force
      with kn have "k' \<noteq> key" by auto
      with Cons.prems(4) [of k' v'] that show ?thesis by simp
    qed
  qed
  show ?case
    unfolding kv by (simp add: hk hv pk a t)
qed

lemma size_Array_elem: "x \<in> set xs \<Longrightarrow> size x < size (Array xs)"
  by (induction xs) auto

lemma size_Structure_elem: "x \<in> set xs \<Longrightarrow> size x < size (Structure sig xs)"
  by (induction xs) auto

lemma size_Object_elem: "(key, v) \<in> set kvs \<Longrightarrow> size v < size (Object kvs)"
  by (induction kvs) auto

lemma size_Array_pos: "0 < size (Array xs)" "0 < size (Object kvs)"
  by simp_all

lemma unpack_encode:
  "in_scope ms v \<Longrightarrow> size v < fuel \<Longrightarrow>
   unpack toStr ms fuel (encode v @ rest) = Return (without_undefined v, rest)"
proof (induction v arbitrary: fuel rest)
  case Null
  then obtain f where f: "fuel = Suc f" by (cases fuel) auto
  show ?case unfolding f by (simp add: unpack_body_Null)
next
  case Undefined
  then show ?case by simp
next
  case (Bool b)
  then obtain f where f: "fuel = Suc f" by (cases fuel) auto
  show ?case unfolding f using unpack_body_Bool [of toStr ms _ b rest] by simp
next
  case (Number x)
  then obtain f where f: "fuel = Suc f" by (cases fuel) auto
  show ?case unfolding f by (simp add: unpack_body_Number del: be_bytes.simps)
next
  case (String x)
  then obtain f where f: "fuel = Suc f" by (cases fuel) auto
  from String.prems have "length x < 4294967296" by simp
  from unpack_body_String [OF this] show ?case unfolding f by simp
next
  case (Integer lo hi)
  then obtain f where f: "fuel = Suc f" by (cases fuel) auto
  show ?case unfolding f by (simp add: unpack_body_Integer)
next
  case (Array xs)
  from Array.prems(2) obtain f where f: "fuel = Suc f" and sz: "size (Array xs) \<le> f"
    by (cases fuel) auto
  from sz obtain f' where f': "f = Suc f'" by (cases f) auto
  let ?u = "unpack toStr ms f"
  let ?e = "\<lambda>x. if x = Undefined then [0xC0] else encode x"
  let ?g = "\<lambda>x. if x = Undefined then Null else without_undefined x"
  from Array.prems(1) have len: "length xs < 4294967296"
    and el: "\<And>x. x \<in> set xs \<Longrightarrow> x = Undefined \<or> in_scope ms x"
    by (simp_all add: list_all_iff)
  have elem: "?u (?e x @ r) = Return (?g x, r)" if "x \<in> set xs" for x r
  proof (cases "x = Undefined")
    case True
    then show ?thesis unfolding f' by (simp add: unpack_body_Null)
  next
    case False
    with el [OF that] have "in_scope ms x" by simp
    moreover have "size x < f" using size_Array_elem [OF that] sz by simp
    ultimately show ?thesis using Array.IH [OF that] False by simp
  qed
  have vs: "unpackValues ?u (length xs) (concat (map ?e xs) @ rest) = Return (map ?g xs, rest)"
    by (rule unpackValues_concat) (rule elem)
  have "unpack toStr ms fuel (encode (Array xs) @ rest)
      = unpack_body toStr ms ?u
          (size_header TINY_LIST LIST_8 LIST_16 LIST_32 (length xs) @ concat (map ?e xs) @ rest)"
    unfolding f by simp
  also have "\<dots> = unpackList ?u (length xs) (concat (map ?e xs) @ rest)"
    by (rule unpack_body_size_header(2) [OF len])
  also have "\<dots> = Return (without_undefined (Array xs), rest)"
    unfolding unpackList_def vs by simp
  finally show ?case .
next
  case (Structure sig fs)
  from Structure.prems(2) obtain f where f: "fuel = Suc f" and sz: "size (Structure sig fs) \<le> f"
    by (cases fuel) auto
  let ?u = "unpack toStr ms f"
  from Structure.prems(1) have len: "length fs < 256" and nm: "ms (unat sig) = None"
    and el: "\<And>x. x \<in> set fs \<Longrightarrow> in_scope ms x"
    by (simp_all add: list_all_iff)
  have elem: "?u (encode x @ r) = Return (without_undefined x, r)" if "x \<in> set fs" for x r
  proof -
    have "size x < f" using size_Structure_elem [OF that, of sig] sz by simp
    with el [OF that] show ?thesis using Structure.IH [OF that] by simp
  qed
  have vs: "unpackValues ?u (length fs) (concat (map encode fs) @ rest)
      = Return (map without_undefined fs, rest)"
    by (rule unpackValues_concat) (rule elem)
  have st: "unpackStruct ms ?u (length fs) (sig # concat (map encode fs) @ rest)
      = Return (without_undefined (Structure sig fs), rest)"
    using nm by (simp add: unpackStruct_default vs)
  show ?case
  proof (cases "length fs < 16")
    case True
    have "unpack toStr ms fuel (encode (Structure sig fs) @ rest)
        = unpack_body toStr ms ?u
            (of_nat (TINY_STRUCT + length fs) # sig # concat (map encode fs) @ rest)"
      unfolding f using True by simp
    also have "\<dots> = unpackStruct ms ?u (length fs) (sig # concat (map encode fs) @ rest)"
      by (rule unpack_body_tiny(4) [OF True])
    finally show ?thesis unfolding st .
  next
    case False
    have "unpack toStr ms fuel (encode (Structure sig fs) @ rest)
        = unpack_body toStr ms ?u
            (of_nat STRUCT_8 # of_nat (length fs) # sig # concat (map encode fs) @ rest)"
      unfolding f using False len by simp
    also have "\<dots> = unpackStruct ms ?u (length fs) (sig # concat (map encode fs) @ rest)"
      by (rule unpack_body_sized8(4) [OF len])
    finally show ?thesis unfolding st .
  qed
next
  case (Object kvs)
  from Object.prems(2) obtain f where f: "fuel = Suc f" and sz: "size (Object kvs) \<le> f"
    by (cases fuel) auto
  from sz obtain f' where f': "f = Suc f'" by (cases f) auto
  let ?u = "unpack toStr ms f"
  let ?p = "\<lambda>(key, v). v \<noteq> Undefined"
  let ?kvs = "filter ?p kvs"
  let ?ek = "\<lambda>key. size_header TINY_STRING STRING_8 STRING_16 STRING_32 (length key) @ key"
  from Object.prems(1) have len: "length ?kvs < 4294967296"
    and dist: "distinct (map fst kvs)"
    and el: "\<And>key v. (key, v) \<in> set kvs \<Longrightarrow> v \<noteq> Undefined \<Longrightarrow>
               length key < 4294967296 \<and> key \<noteq> proto_key \<and> in_scope ms v"
    by (auto simp add: list_all_iff)
  have keys: "?u (?ek key @ r) = Return (String key, r)" if "(key, v) \<in> set ?kvs" for key v r
  proof -
    from that el [of key v] have "length key < 4294967296" by simp
    from unpack_body_String [OF this, of toStr ms "unpack toStr ms f'" r]
    show ?thesis unfolding f' by simp
  qed
  have vals: "?u (encode v @ r) = Return (without_undefined v, r)" if "(key, v) \<in> set ?kvs" for key v r
  proof -
    from that have mem: "(key, v) \<in> set kvs" and d: "v \<noteq> Undefined" by simp_all
    from el [OF mem d] have sc: "in_scope ms v" by simp
    have s: "size v < f" using size_Object_elem [OF mem] sz by simp
    have "(key, v) \<in> set kvs \<and> v \<in> Basic_BNFs.snds (key, v)" using mem by simp
    then show ?thesis using Object.IH sc s by blast
  qed
  have dk: "distinct (map fst ?kvs)" using dist by (rule distinct_map_filter)
  have np: "key \<noteq> proto_key \<and> key \<notin> fst ` set []" if "(key, v) \<in> set ?kvs" for key v
    using that el [of key v] by simp
  have en: "unpackEntries toStr ?u (length ?kvs)
              (concat (map (\<lambda>(key, v). ?ek key @ encode v) ?kvs) @ rest) []
      = Return (Object ([] @ map (\<lambda>(key, v). (key, without_undefined v)) ?kvs), rest)"
    by (rule unpackEntries_concat [where ek = ?ek and ev = encode and g = without_undefined,
          OF keys vals dk np])
  have "unpack toStr ms fuel (encode (Object kvs) @ rest)
      = unpack_body toStr ms ?u
          (size_header TINY_MAP MAP_8 MAP_16 MAP_32 (length ?kvs) @
           concat (map (\<lambda>(key, v). ?ek key @ encode v) ?kvs) @ rest)"
    unfolding f by (simp add: case_prod_unfold)
  also have "\<dots> = unpackMap toStr ?u (length ?kvs)
                       (concat (map (\<lambda>(key, v). ?ek key @ encode v) ?kvs) @ rest)"
    by (rule unpack_body_size_header(3) [OF len])
  also have "\<dots> = Return (without_undefined (Object kvs), rest)"
    unfolding unpackMap_def en by simp
  finally show ?case .
next
  case Function
  then show ?case by simp
qed

subsection \<open>Round trip\<close>

text \<open>
  C1 (as amended). For every value in scope (within the size limits of the grammar,
  every Structure with fewer than 256 fields and with no mapper registered for its
  signature, no surviving map entry with the key \<open>__proto__\<close>), packing succeeds, reports
  no error and appends bytes to the channel, and unpacking these bytes, whatever follows
  them and with any sufficient nesting depth, returns the value, up to the
  undefined-filtering rule, and leaves what follows. An Integer is returned with both of
  its halves unchanged.
\<close>

theorem round_trip:
  assumes "in_scope ms v"
  shows "\<exists>bs d. pack oe v s = Done (s\<lparr>written := written s @ bs\<rparr>) \<and>
           (\<forall>fuel rest. d \<le> fuel \<longrightarrow>
              unpack toStr ms fuel (bs @ rest) = Return (without_undefined v, rest))"
proof -
  have "pack oe v s = Done (s\<lparr>written := written s @ encode v\<rparr>)"
    by (rule pack_in_scope [OF assms])
  moreover have "\<forall>fuel rest. Suc (size v) \<le> fuel \<longrightarrow>
      unpack toStr ms fuel (encode v @ rest) = Return (without_undefined v, rest)"
    using unpack_encode [OF assms] by simp
  ultimately show ?thesis by blast
qed

text \<open>
  The map \<open>{"a": [1, undefined, Structure(0x4E, ["x"])], "b": undefined}\<close> is written as
  \<open>A1 81 61 93 01 C0 B1 4E 81 78\<close> and read back as \<open>{"a": [1, null, Structure(0x4E, ["x"])]}\<close>.
\<close>

theorem round_trip_witness:
  "(\<exists>bs d. pack Supplied
        (Object [([0x61], Array [Integer 1 0, Undefined, Structure 0x4E [String [0x78]]]),
                 ([0x62], Undefined)])
        \<lparr>written = [], reported = []\<rparr>
        = Done (\<lparr>written = [], reported = []\<rparr>\<lparr>written := written \<lparr>written = [], reported = []\<rparr> @ bs\<rparr>) \<and>
      (\<forall>fuel rest. d \<le> fuel \<longrightarrow>
         unpack (\<lambda>v. None) Map.empty fuel (bs @ rest) =
           Return (Object [([0x61], Array [Integer 1 0, Null, Structure 0x4E [String [0x78]]])], rest))) \<and>
   pack Supplied
        (Object [([0x61], Array [Integer 1 0, Undefined, Structure 0x4E [String [0x78]]]),
                 ([0x62], Undefined)])
        \<lparr>written = [], reported = []\<rparr>
     = Done \<lparr>written = [0xA1, 0x81, 0x61, 0x93, 0x01, 0xC0, 0xB1, 0x4E, 0x81, 0x78], reported = []\<rparr> \<and>
   unpack (\<lambda>v. None) Map.empty (Suc (Suc (Suc (Suc 0))))
        [0xA1, 0x81, 0x61, 0x93, 0x01, 0xC0, 0xB1, 0x4E, 0x81, 0x78]
     = Return (Object [([0x61], Array [Integer 1 0, Null, Structure 0x4E [String [0x78]]])], [])"
proof -
  let ?v = "Object [([0x61], Array [Integer 1 0, Undefined, Structure 0x4E [String [0x78]]]),
                    ([0x62], Undefined)]"
  have sc: "in_scope Map.empty ?v"
    by (simp add: proto_key_def)
  have a: "\<exists>bs d. pack Supplied ?v \<lparr>written = [], reported = []\<rparr>
        = Done (\<lparr>written = [], reported = []\<rparr>\<lparr>written := written \<lparr>written = [], reported = []\<rparr> @ bs\<rparr>) \<and>
      (\<forall>fuel rest. d \<le> fuel \<longrightarrow>
         unpack (\<lambda>v. None) Map.empty fuel (bs @ rest) =
           Return (Object [([0x61], Array [Integer 1 0, Null, Structure 0x4E [String [0x78]]])], rest))"
    using round_trip [OF sc, of Supplied "\<lparr>written = [], reported = []\<rparr>" "\<lambda>v. None"] by simp
  have b: "pack Supplied ?v \<lparr>written = [], reported = []\<rparr>
     = Done \<lparr>written = [0xA1, 0x81, 0x61, 0x93, 0x01, 0xC0, 0xB1, 0x4E, 0x81, 0x78], reported = []\<rparr>"
    by (simp add: pack_in_scope [OF sc] size_header_def marker_defs integer_tier_def toInt_def twos_def)
  have c: "unpack (\<lambda>v. None) Map.empty (Suc (Suc (Suc (Suc 0))))
        [0xA1, 0x81, 0x61, 0x93, 0x01, 0xC0, 0xB1, 0x4E, 0x81, 0x78]
     = Return (Object [([0x61], Array [Integer 1 0, Null, Structure 0x4E [String [0x78]]])], [])"
    by (simp add: eval_unpack)
  from a b c show ?thesis by blast
qed

text \<open>
  The map \<open>{"__proto__": "x"}\<close> (one own property, within every size limit) is written
  as a map of one entry and read back as the empty map.
\<close>

theorem round_trip_proto_key_counterexample:
  "pack Supplied (Object [([0x5F, 0x5F, 0x70, 0x72, 0x6F, 0x74, 0x6F, 0x5F, 0x5F], String [0x78])])
        \<lparr>written = [], reported = []\<rparr>
     = Done \<lparr>written = [0xA1, 0x89, 0x5F, 0x5F, 0x70, 0x72, 0x6F, 0x74, 0x6F, 0x5F, 0x5F, 0x81, 0x78],
             reported = []\<rparr> \<and>
   unpack (\<lambda>v. None) Map.empty (Suc (Suc 0))
        [0xA1, 0x89, 0x5F, 0x5F, 0x70, 0x72, 0x6F, 0x74, 0x6F, 0x5F, 0x5F, 0x81, 0x78]
     = Return (Object [], [])"
  by (simp add: pack_Object packMapHeader_emit packString_emit size_header_def emit_def
      marker_defs pack_def eval_unpack)

subsection \<open>A Structure with 256 fields\<close>

text \<open>
  What the Packer writes for a Structure of 256 Nulls has no signature byte; the
  Unpacker takes the first field for the signature and then reads past the end.
\<close>

lemma unpackValues_short:
  assumes "\<And>r. u (0xC0 # r) = Return (Null, r)" and "u [] = Raise e"
  shows "unpackValues u (Suc n) (replicate n 0xC0) = Raise e"
proof (induction n)
  case 0
  show ?case by (simp add: assms)
next
  case (Suc n)
  have "unpackValues u (Suc (Suc n)) (0xC0 # replicate n 0xC0)
      = bindR (unpackValues u (Suc n) (replicate n 0xC0)) (\<lambda>(vs, buffer). Return (Null # vs, buffer))"
    by (simp add: assms(1))
  then show ?case by (simp only: Suc.IH replicate_Suc bindR.simps)
qed

lemma unpack_empty: "unpack toStr ms (Suc 0) [] = Raise RangeError"
  by (simp add: unpack_body_def readUInt8_def readBytes_def)

lemma unpack_Null: "unpack toStr ms (Suc 0) (0xC0 # r) = Return (Null, r)"
  by (simp add: unpack_body_Null)

lemma pack_Structure_256:
  "pack Supplied (Structure 0x4E (replicate 256 Null)) \<lparr>written = [], reported = []\<rparr>
     = Done \<lparr>written = [0xDD, 0x01, 0x00] @ replicate 256 0xC0, reported = []\<rparr>"
proof -
  have w: "writeUInt8 NULL = emit [0xC0]" by (simp add: writeUInt8_emit NULL_def)
  have c: "concat (replicate n [x]) = replicate n x" for n and x :: byte
    by (induction n) simp_all
  have h: "packStructHeader 256 0x4E Absent s = emit [0xDD, 0x01, 0x00] s" for s
    by (simp add: packStructHeader_emit marker_defs be_bytes_2 emit_def)
  have "run (packStructHeader 256 0x4E Absent # replicate 256 (emit [0xC0])) s
      = emit ([0xDD, 0x01, 0x00] @ replicate 256 0xC0) s" for s
    using run_header_map_emit [where h = "packStructHeader 256 0x4E Absent" and s = s
        and hdr = "[0xDD, 0x01, 0x00]" and f = "\<lambda>_. [0xC0]" and xs = "replicate 256 ()", OF h]
    by (simp add: map_replicate_const c)
  then show ?thesis
    by (simp add: pack_def collect_replicate_Null packStruct_def w emit_def)
qed

lemma unpack_Structure_256:
  "unpack toStr Map.empty (Suc (Suc 0)) ([0xDD, 0x01, 0x00] @ replicate 256 0xC0) = Raise RangeError"
proof -
  have r: "replicate 256 (0xC0 :: byte) = 0xC0 # replicate 255 0xC0"
    by (simp add: replicate_Suc [symmetric] del: replicate_Suc)
  have z: "(256 :: byte) = 0" by simp
  have "unpack_body toStr Map.empty (unpack toStr Map.empty (Suc 0))
          (of_nat STRUCT_16 # be_bytes 2 256 @ 0xC0 # replicate 255 0xC0)
      = unpackStruct Map.empty (unpack toStr Map.empty (Suc 0)) 256 (0xC0 # replicate 255 0xC0)"
    by (rule unpack_body_sized16(4)) simp
  also have "\<dots> = Raise RangeError"
  proof -
    have "unpackValues (unpack toStr Map.empty (Suc 0)) (Suc 255) (replicate 255 0xC0)
        = Raise RangeError"
      by (rule unpackValues_short [OF unpack_Null unpack_empty])
    then have "unpackValues (unpack toStr Map.empty (Suc 0)) 256 (replicate 255 0xC0)
        = Raise RangeError"
      by (simp del: unpackValues.simps unpack.simps)
    then show ?thesis
      by (simp add: unpackStruct_default del: unpackValues.simps unpack.simps)
  qed
  finally show ?thesis
    unfolding r using z by (simp add: marker_defs be_bytes_2)
qed

end
